theory Spec2Isabelle
  imports
    Complex_Main
    "HOL-Library.Multiset"
    "HOL-Library.Char_ord"
    "HOL-Library.List_Lexorder"
    "HOL-Library.Product_Lexorder"
    "HOL-Library.Log_Nat"
begin

section \<open>Values\<close>

text \<open>
  The analysis in \<^verbatim>\<open>analyze_max_g.py\<close> works on the numeric columns of a pandas
  data frame. A number is modelled by its exact rational value or one of the three
  special values of float64. An int64 value and every finite float64 value is a
  rational; the operations below round where float64 rounds.
\<close>

datatype fval = Fin rat | PInf | NInf | NaN

text \<open>The comparisons of IEEE floats: every comparison with NaN is false.\<close>

fun flt :: "fval \<Rightarrow> fval \<Rightarrow> bool" where
  "flt NaN y = False"
| "flt x NaN = False"
| "flt (Fin a) (Fin b) = (a < b)"
| "flt (Fin a) PInf = True"
| "flt (Fin a) NInf = False"
| "flt NInf (Fin b) = True"
| "flt NInf PInf = True"
| "flt NInf NInf = False"
| "flt PInf y = False"

definition fle :: "fval \<Rightarrow> fval \<Rightarrow> bool" where
  "fle x y = (x \<noteq> NaN \<and> y \<noteq> NaN \<and> \<not> flt y x)"

fun fneg :: "fval \<Rightarrow> fval" where
  "fneg (Fin a) = Fin (- a)"
| "fneg PInf = NInf"
| "fneg NInf = PInf"
| "fneg NaN = NaN"

fun fabs :: "fval \<Rightarrow> fval" where
  "fabs (Fin a) = Fin \<bar>a\<bar>"
| "fabs PInf = PInf"
| "fabs NInf = PInf"
| "fabs NaN = NaN"

section \<open>Float64 arithmetic\<close>

text \<open>Rounding of a rational to the nearest integer, a tie going to the even one.\<close>

definition rne :: "rat \<Rightarrow> int" where
  "rne x = (let f = \<lfloor>x\<rfloor>; d = x - of_int f in
            if d < 1 / 2 then f else if 1 / 2 < d then f + 1
            else if even f then f else f + 1)"

text \<open>
  Float64 has 53 significant bits, its smallest positive value is \<open>2 ^ - 1074\<close> and
  every result of magnitude \<open>2 ^ 1024\<close> or more is infinite. A non-negative rational is
  rounded on the scale where the smallest positive float is 1: there the floats are
  the integers below \<open>2 ^ 53\<close> and, above, the multiples of the power of two that leaves
  53 bits.
\<close>

definition denormal_bits :: nat where
  "denormal_bits = 1074"

definition overflow_bits :: nat where
  "overflow_bits = 2098"

definition bit_length :: "rat \<Rightarrow> nat" where
  "bit_length s = nat (bitlen \<lfloor>s\<rfloor>)"

definition shift64 :: "rat \<Rightarrow> nat" where
  "shift64 s = bit_length s - 53"

definition round_scaled :: "rat \<Rightarrow> int" where
  "round_scaled s = rne (s / 2 ^ shift64 s) * 2 ^ shift64 s"

definition round_pos :: "rat \<Rightarrow> fval" where
  "round_pos q = (let m = round_scaled (q * 2 ^ denormal_bits) in
                  if 2 ^ overflow_bits \<le> m then PInf
                  else Fin (of_int m / 2 ^ denormal_bits))"

text \<open>The float64 nearest to a rational (round to nearest, ties to even).\<close>

definition round64 :: "rat \<Rightarrow> fval" where
  "round64 q = (if q < 0 then fneg (round_pos (- q)) else round_pos q)"

text \<open>The conversion of a value to float64, as for an int64 series that is summed.\<close>

fun to_float64 :: "fval \<Rightarrow> fval" where
  "to_float64 (Fin a) = round64 a"
| "to_float64 v = v"

text \<open>Float64 addition, and the division of a float64 sum by a count.\<close>

fun fadd :: "fval \<Rightarrow> fval \<Rightarrow> fval" where
  "fadd NaN y = NaN"
| "fadd x NaN = NaN"
| "fadd (Fin a) (Fin b) = round64 (a + b)"
| "fadd (Fin a) PInf = PInf"
| "fadd (Fin a) NInf = NInf"
| "fadd PInf (Fin b) = PInf"
| "fadd PInf PInf = PInf"
| "fadd PInf NInf = NaN"
| "fadd NInf (Fin b) = NInf"
| "fadd NInf NInf = NInf"
| "fadd NInf PInf = NaN"

definition fdiv :: "fval \<Rightarrow> nat \<Rightarrow> fval" where
  "fdiv v n = (if n = 0 then NaN
               else case v of Fin a \<Rightarrow> round64 (a / of_nat n) | _ \<Rightarrow> v)"

text \<open>
  The order in which a reduction adds the values of a series is the library's: numpy
  adds pairwise in blocks, other back ends from left to right. A summation names the
  positions of the series and how their values are added.
\<close>

datatype summation = Value nat | Add summation summation

fun float_sum :: "summation \<Rightarrow> fval list \<Rightarrow> fval" where
  "float_sum (Value i) vs = (if i < length vs then to_float64 (vs ! i) else Fin 0)"
| "float_sum (Add l r) vs = fadd (float_sum l vs) (float_sum r vs)"

section \<open>Cells and the library\<close>

text \<open>
  A cell of a data frame as \<^verbatim>\<open>pd.read_csv\<close> delivers it: a number (an empty field
  is NaN) or a text. A column has a dtype: int64, float64, another numeric dtype
  (uint64, bool) or object.
\<close>

datatype cell = Num fval | Txt string

datatype dtype = Int64 | Float64 | Numeric | Object

text \<open>
  What the analysis takes from pandas and numpy: the dtype that
  \<^verbatim>\<open>pd.to_numeric(..., errors='coerce')\<close> gives to an object column, which depends
  on the cells that the column holds and not on their order (int64 when every cell is
  an integer in the range of int64, float64 as soon as one cell is not numeric); the
  number it reads from a text when the converted column has a given dtype (NaN where
  the text is not numeric); and the order in which a series of a given length is
  summed.
\<close>

record pandas =
  object_dtype :: "cell set \<Rightarrow> dtype"
  text_value :: "dtype \<Rightarrow> string \<Rightarrow> fval"
  sum_order :: "nat \<Rightarrow> summation"

text \<open>The dtype of the converted column: a numeric column keeps its dtype.\<close>

definition numeric_dtype :: "pandas \<Rightarrow> dtype \<Rightarrow> cell list \<Rightarrow> dtype" where
  "numeric_dtype lib d cs = (if d = Object then object_dtype lib (set cs) else d)"

text \<open>
  Element-wise \<^verbatim>\<open>pd.to_numeric(..., errors='coerce')\<close>, given the dtype of the
  converted column: a text is read, a number stays and is a float64 in a float64
  column.
\<close>

definition to_numeric :: "pandas \<Rightarrow> dtype \<Rightarrow> cell \<Rightarrow> fval" where
  "to_numeric lib d c =
     (case c of
        Num v \<Rightarrow> (if d = Float64 then to_float64 v else v)
      | Txt s \<Rightarrow> text_value lib d s)"

text \<open>
  Element-wise \<^verbatim>\<open>Series.abs()\<close>: the absolute value, except that in an int64
  column the least value \<open>- 2 ^ 63\<close> has no positive counterpart and stays as it is.
\<close>

definition abs_value :: "dtype \<Rightarrow> fval \<Rightarrow> fval" where
  "abs_value d v = (if d = Int64 \<and> v = Fin (- (2 ^ 63)) then v else fabs v)"

text \<open>
  The number held by a cell of a numeric column. Such a column holds no text (the
  column \<^verbatim>\<open>ValueG\<close> is read this way only after \<^verbatim>\<open>to_numeric\<close> has replaced it);
  the second equation makes the function total.
\<close>

fun float_of :: "cell \<Rightarrow> fval" where
  "float_of (Num v) = v"
| "float_of (Txt s) = NaN"

section \<open>Data frames\<close>

text \<open>
  A row gives the cell of every column name; a data frame is the list of its column
  names, the dtype of each column and its rows, each with its index label. Filtering
  keeps the labels, as pandas does.
\<close>

type_synonym row = "string \<Rightarrow> cell"

record dataframe =
  columns :: "string list"
  dtypes :: "string \<Rightarrow> dtype"
  rows :: "(nat \<times> row) list"

text \<open>
  A path names nothing (opening it fails because no such file exists), or something
  that cannot be opened and read as a file (a directory, a file without read
  permission), or a file. A file is modelled by what
  \<^verbatim>\<open>pd.read_csv(path, skiprows=1)\<close> makes of it: a failure of the parser, or a
  header, the dtypes and the rows.
\<close>

datatype csv_file = Unreadable | Unparsable | Table "string list" "string \<Rightarrow> dtype" "row list"

type_synonym filesystem = "string \<rightharpoonup> csv_file"

datatype exn = FileNotFoundError | OSError | ParserError | IndexError | KeyError string

definition read_csv :: "filesystem \<Rightarrow> string \<Rightarrow> exn + dataframe" where
  "read_csv fs path =
     (case fs path of
        None \<Rightarrow> Inl FileNotFoundError
      | Some Unreadable \<Rightarrow> Inl OSError
      | Some Unparsable \<Rightarrow> Inl ParserError
      | Some (Table cols dts rs) \<Rightarrow>
          Inr \<lparr>columns = cols, dtypes = dts, rows = zip [0..<length rs] rs\<rparr>)"

text \<open>Line 24: \<^verbatim>\<open>df = df[df.iloc[:, 0] == -900]\<close>.\<close>

definition select_tag :: "dataframe \<Rightarrow> exn + dataframe" where
  "select_tag df =
     (case columns df of
        [] \<Rightarrow> Inl IndexError
      | c # cs \<Rightarrow> Inr (df\<lparr>rows := filter (\<lambda>(i, r). r c = Num (Fin (- 900))) (rows df)\<rparr>))"

text \<open>Line 27: \<^verbatim>\<open>df['ValueG'] = pd.to_numeric(df['ValueG'], errors='coerce')\<close>.\<close>

definition convert_ValueG :: "pandas \<Rightarrow> dataframe \<Rightarrow> exn + dataframe" where
  "convert_ValueG lib df =
     (if ''ValueG'' \<in> set (columns df)
      then let d = numeric_dtype lib (dtypes df ''ValueG'') (map (\<lambda>(i, r). r ''ValueG'') (rows df))
           in Inr (df\<lparr>dtypes := (dtypes df)(''ValueG'' := d),
                      rows := map (\<lambda>(i, r). (i, r(''ValueG'' := Num (to_numeric lib d (r ''ValueG'')))))
                                (rows df)\<rparr>)
      else Inl (KeyError ''ValueG''))"

text \<open>Line 28: \<^verbatim>\<open>df = df[df['ValueG'].notna()]\<close>.\<close>

definition drop_na :: "dataframe \<Rightarrow> dataframe" where
  "drop_na df = df\<lparr>rows := filter (\<lambda>(i, r). r ''ValueG'' \<noteq> Num NaN) (rows df)\<rparr>"

text \<open>Line 31: \<^verbatim>\<open>df['AbsValueG'] = df['ValueG'].abs()\<close>; a new column is appended.\<close>

definition add_abs :: "dataframe \<Rightarrow> dataframe" where
  "add_abs df =
     df\<lparr>columns := (if ''AbsValueG'' \<in> set (columns df) then columns df
                     else columns df @ [''AbsValueG'']),
        dtypes := (dtypes df)(''AbsValueG'' := dtypes df ''ValueG''),
        rows := map (\<lambda>(i, r). (i, r(''AbsValueG'' :=
                  Num (abs_value (dtypes df ''ValueG'') (float_of (r ''ValueG'')))))) (rows df)\<rparr>"

section \<open>Grouping\<close>

type_synonym key = "cell \<times> cell"

definition key_of :: "row \<Rightarrow> key" where
  "key_of r = (r ''Trial'', r ''TrialNo'')"

text \<open>
  \<^verbatim>\<open>groupby\<close> is called with its defaults: rows with a missing (NaN) key are left
  out (\<^verbatim>\<open>dropna=True\<close>) and the groups come in the order of their keys
  (\<^verbatim>\<open>sort=True\<close>): numbers by value before texts by code points.
\<close>

definition key_present :: "key \<Rightarrow> bool" where
  "key_present k = (fst k \<noteq> Num NaN \<and> snd k \<noteq> Num NaN)"

fun cell_rank :: "cell \<Rightarrow> nat \<times> rat \<times> string" where
  "cell_rank (Num NInf) = (0, 0, [])"
| "cell_rank (Num (Fin a)) = (1, a, [])"
| "cell_rank (Num PInf) = (2, 0, [])"
| "cell_rank (Txt s) = (3, 0, s)"
| "cell_rank (Num NaN) = (4, 0, [])"

definition key_rank :: "key \<Rightarrow> (nat \<times> rat \<times> string) \<times> (nat \<times> rat \<times> string)" where
  "key_rank k = (cell_rank (fst k), cell_rank (snd k))"

type_synonym groups = "(key \<times> (nat \<times> row) list) list"

text \<open>\<^verbatim>\<open>df.groupby(['Trial', 'TrialNo'])\<close>: the keys with the rows of each.\<close>

definition groupby :: "dataframe \<Rightarrow> exn + groups" where
  "groupby df =
     (if ''Trial'' \<notin> set (columns df) then Inl (KeyError ''Trial'')
      else if ''TrialNo'' \<notin> set (columns df) then Inl (KeyError ''TrialNo'')
      else
        let rs = filter (\<lambda>(i, r). key_present (key_of r)) (rows df);
            ks = sort_key key_rank (remdups (map (\<lambda>(i, r). key_of r) rs))
        in Inr (map (\<lambda>k. (k, filter (\<lambda>(i, r). key_of r = k) rs)) ks))"

text \<open>
  The maximum of a group as the reduction computes it: it starts from minus infinity
  and takes every larger value. Comparisons do not round.
\<close>

definition max_step :: "fval \<Rightarrow> fval \<Rightarrow> fval" where
  "max_step v m = (if flt m v then v else m)"

definition series_max :: "fval list \<Rightarrow> fval" where
  "series_max vs = fold max_step vs NInf"

text \<open>\<^verbatim>\<open>groupby(...)[col].max()\<close>: a series indexed by the keys.\<close>

definition group_max :: "string \<Rightarrow> groups \<Rightarrow> (key \<times> fval) list" where
  "group_max col gs =
     map (\<lambda>(k, rs). (k, series_max (map (\<lambda>(i, r). float_of (r col)) rs))) gs"

text \<open>
  \<^verbatim>\<open>Series.mean()\<close>: missing values are skipped (they count as 0 in the sum and not
  at all in the count); without any value the mean is NaN, else it is the float64 sum
  of the values, converted to float64 and added in the library's order, divided by
  their count.
\<close>

definition series_mean :: "(nat \<Rightarrow> summation) \<Rightarrow> fval list \<Rightarrow> fval" where
  "series_mean order vs =
     (let present = filter (\<lambda>v. v \<noteq> NaN) vs in
      if present = [] then NaN
      else fdiv (float_sum (order (length vs)) (map (\<lambda>v. if v = NaN then Fin 0 else v) vs))
             (length present))"

section \<open>The analysis\<close>

record analysis =
  max_values :: "(key \<times> fval) list"
  mean_of_maxes :: fval
  abs_max_values :: "(key \<times> fval) list"
  mean_of_abs_maxes :: fval

text \<open>
  The body of the \<^verbatim>\<open>try\<close> block, an exception being \<open>Inl\<close>. Lines 20 to 31
  build the frame, lines 35 to 42 group it twice and reduce.
\<close>

definition prepare :: "pandas \<Rightarrow> dataframe \<Rightarrow> exn + dataframe" where
  "prepare lib df =
     (case select_tag df of
        Inl e \<Rightarrow> Inl e
      | Inr df1 \<Rightarrow>
          (case convert_ValueG lib df1 of
             Inl e \<Rightarrow> Inl e
           | Inr df2 \<Rightarrow> Inr (add_abs (drop_na df2))))"

definition frame :: "pandas \<Rightarrow> filesystem \<Rightarrow> string \<Rightarrow> exn + dataframe" where
  "frame lib fs path =
     (case read_csv fs path of
        Inl e \<Rightarrow> Inl e
      | Inr df0 \<Rightarrow> prepare lib df0)"

definition summarize :: "pandas \<Rightarrow> dataframe \<Rightarrow> exn + analysis" where
  "summarize lib df =
     (case groupby df of
        Inl e \<Rightarrow> Inl e
      | Inr gs \<Rightarrow>
          let mx = group_max ''ValueG'' gs in
          (case groupby df of
             Inl e \<Rightarrow> Inl e
           | Inr gs' \<Rightarrow>
               let amx = group_max ''AbsValueG'' gs' in
               Inr \<lparr>max_values = mx,
                     mean_of_maxes = series_mean (sum_order lib) (map snd mx),
                     abs_max_values = amx,
                     mean_of_abs_maxes = series_mean (sum_order lib) (map snd amx)\<rparr>))"

definition analyze_body :: "pandas \<Rightarrow> filesystem \<Rightarrow> string \<Rightarrow> exn + analysis" where
  "analyze_body lib fs path =
     (case frame lib fs path of
        Inl e \<Rightarrow> Inl e
      | Inr df \<Rightarrow> summarize lib df)"

text \<open>
  The index labels of every group (\<^verbatim>\<open>GroupBy.groups\<close>) of the frame that is grouped
  in lines 35 and 38.
\<close>

definition group_labels :: "groups \<Rightarrow> (key \<times> nat list) list" where
  "group_labels gs = map (\<lambda>(k, rs). (k, map fst rs)) gs"

definition trial_groups :: "pandas \<Rightarrow> filesystem \<Rightarrow> string \<Rightarrow> exn + (key \<times> nat list) list" where
  "trial_groups lib fs path =
     (case frame lib fs path of
        Inl e \<Rightarrow> Inl e
      | Inr df \<Rightarrow>
          (case groupby df of
             Inl e \<Rightarrow> Inl e
           | Inr gs \<Rightarrow> Inr (group_labels gs)))"

text \<open>
  The two handlers print a message and return four times None; a run without exception
  prints the tables and returns the two dictionaries and the two means.
\<close>

datatype message = NotFound string | Processing exn

datatype outcome = Failed message | Returned analysis

definition analyze_max_g_values :: "pandas \<Rightarrow> filesystem \<Rightarrow> string \<Rightarrow> outcome" where
  "analyze_max_g_values lib fs path =
     (case analyze_body lib fs path of
        Inl FileNotFoundError \<Rightarrow> Failed (NotFound path)
      | Inl e \<Rightarrow> Failed (Processing e)
      | Inr a \<Rightarrow> Returned a)"

text \<open>
  \<^verbatim>\<open>main\<close> writes the report file only when the first returned value is not None.
  The result is the report written, for which input and with which values, or None
  when no file is written. The path is a constant of \<^verbatim>\<open>main\<close>, here a parameter.
\<close>

definition main :: "pandas \<Rightarrow> filesystem \<Rightarrow> string \<Rightarrow> (string \<times> analysis) option" where
  "main lib fs csv_file =
     (case analyze_max_g_values lib fs csv_file of
        Failed m \<Rightarrow> None
      | Returned a \<Rightarrow> Some (csv_file, a))"

section \<open>Examples\<close>

text \<open>
  The readings of the texts that occur in the examples; the float64 nearest to -7.2 is
  \<open>- 8106479329266893 / 2 ^ 50\<close>. An object column of the examples holds a text that is
  no integer and becomes a float64 column. Sums are taken from left to right.
\<close>

definition sample_conv :: "string \<Rightarrow> fval" where
  "sample_conv s =
     (if s = ''3.5'' then Fin (7 / 2)
      else if s = ''-7.2'' then Fin (- 8106479329266893 / 1125899906842624)
      else if s = ''4.0'' then Fin 4
      else if s = ''999'' then Fin 999
      else NaN)"

fun left_to_right :: "nat \<Rightarrow> summation" where
  "left_to_right 0 = Value 0"
| "left_to_right (Suc n) = (if n = 0 then Value 0 else Add (left_to_right n) (Value n))"

definition sample_lib :: pandas where
  "sample_lib = \<lparr>object_dtype = (\<lambda>cs. Float64), text_value = (\<lambda>d. sample_conv),
                  sum_order = left_to_right\<rparr>"

definition mk_row :: "cell \<Rightarrow> cell \<Rightarrow> cell \<Rightarrow> cell \<Rightarrow> row" where
  "mk_row t tr no v =
     (\<lambda>c. if c = ''Tag'' then t else if c = ''Trial'' then tr
          else if c = ''TrialNo'' then no else if c = ''ValueG'' then v else Num NaN)"

definition header :: "string list" where
  "header = [''Tag'', ''Trial'', ''TrialNo'', ''ValueG'']"

text \<open>The dtypes of the four columns, given the dtype of \<^verbatim>\<open>ValueG\<close>.\<close>

definition with_values :: "dtype \<Rightarrow> string \<Rightarrow> dtype" where
  "with_values d c = (if c = ''ValueG'' then d else if c = ''Trial'' then Object else Int64)"

text \<open>
  A file whose only row is a state marker, a file without the value column, and a
  path that leads to a directory.
\<close>

definition metadata_only :: filesystem where
  "metadata_only = [''a.csv'' \<mapsto> Table header (with_values Int64)
     [mk_row (Num (Fin (- 130))) (Txt ''A'') (Num (Fin 2)) (Num (Fin 999))]]"

definition no_value_column :: filesystem where
  "no_value_column = [''b.csv'' \<mapsto> Table [''Tag'', ''Trial'', ''TrialNo''] (with_values Object) []]"

definition a_directory :: filesystem where
  "a_directory = [''logs'' \<mapsto> Unreadable]"

text \<open>
  The scenario of the specification: two rows of trial A, repetition 1, one row of
  repetition 2, a state marker and a row without a numeric value. The value column
  holds texts.
\<close>

definition scenario_rows :: "row list" where
  "scenario_rows =
     [mk_row (Num (Fin (- 900))) (Txt ''A'') (Num (Fin 1)) (Txt ''3.5''),
      mk_row (Num (Fin (- 900))) (Txt ''A'') (Num (Fin 1)) (Txt ''-7.2''),
      mk_row (Num (Fin (- 900))) (Txt ''A'') (Num (Fin 2)) (Txt ''4.0''),
      mk_row (Num (Fin (- 130))) (Txt ''A'') (Num (Fin 2)) (Txt ''999''),
      mk_row (Num (Fin (- 900))) (Txt ''B'') (Num (Fin 1)) (Txt ''not_a_number'')]"

definition scenario :: filesystem where
  "scenario = [''run.csv'' \<mapsto> Table header (with_values Object) scenario_rows]"

definition scenario_reversed :: filesystem where
  "scenario_reversed = [''run.csv'' \<mapsto> Table header (with_values Object) (rev scenario_rows)]"

text \<open>
  The float64 sum of 7.2 and 4.0 is a tie and rounds to \<open>6305039478318694 / 2 ^ 49\<close>;
  its half is the float64 nearest to 5.6.
\<close>

definition scenario_result :: analysis where
  "scenario_result =
     \<lparr>max_values = [((Txt ''A'', Num (Fin 1)), Fin (7 / 2)), ((Txt ''A'', Num (Fin 2)), Fin 4)],
      mean_of_maxes = Fin (15 / 4),
      abs_max_values = [((Txt ''A'', Num (Fin 1)), Fin (8106479329266893 / 1125899906842624)),
                        ((Txt ''A'', Num (Fin 2)), Fin 4)],
      mean_of_abs_maxes = Fin (3152519739159347 / 562949953421312)\<rparr>"

text \<open>Files with an infinite value and with a missing key.\<close>

definition infinite_value :: filesystem where
  "infinite_value = [''inf.csv'' \<mapsto> Table header (with_values Float64)
     [mk_row (Num (Fin (- 900))) (Txt ''A'') (Num (Fin 1)) (Num PInf)]]"

definition missing_trial :: filesystem where
  "missing_trial = [''gap.csv'' \<mapsto> Table header (with_values Float64)
     [mk_row (Num (Fin (- 900))) (Num NaN) (Num (Fin 1)) (Num (Fin (7 / 2)))]]"

definition missing_trial_no :: filesystem where
  "missing_trial_no = [''gap2.csv'' \<mapsto> Table header (with_values Float64)
     [mk_row (Num (Fin (- 900))) (Txt ''A'') (Num (Fin 1)) (Num (Fin (7 / 2))),
      mk_row (Num (Fin (- 900))) (Txt ''A'') (Num NaN) (Num (Fin 4))]]"




definition three_groups :: filesystem where
  "three_groups = [''three.csv'' \<mapsto> Table header (with_values Float64)
     [mk_row (Num (Fin (- 900))) (Txt ''A'') (Num (Fin 1)) (Num (Fin 2)),
      mk_row (Num (Fin (- 900))) (Txt ''A'') (Num (Fin 2)) (Num (Fin 4)),
      mk_row (Num (Fin (- 900))) (Txt ''A'') (Num (Fin 1)) (Num (Fin (- 5))),
      mk_row (Num (Fin (- 900))) (Txt ''A'') (Num (Fin 3)) (Num (Fin 6))]]"

definition three_groups_result :: analysis where
  "three_groups_result =
     \<lparr>max_values = [((Txt ''A'', Num (Fin 1)), Fin 2), ((Txt ''A'', Num (Fin 2)), Fin 4),
                    ((Txt ''A'', Num (Fin 3)), Fin 6)],
      mean_of_maxes = Fin 4,
      abs_max_values = [((Txt ''A'', Num (Fin 1)), Fin 5), ((Txt ''A'', Num (Fin 2)), Fin 4),
                        ((Txt ''A'', Num (Fin 3)), Fin 6)],
      mean_of_abs_maxes = Fin 5\<rparr>"

definition opposite_infinities :: filesystem where
  "opposite_infinities = [''opp.csv'' \<mapsto> Table header (with_values Float64)
     [mk_row (Num (Fin (- 900))) (Txt ''A'') (Num (Fin 1)) (Num NInf),
      mk_row (Num (Fin (- 900))) (Txt ''A'') (Num (Fin 2)) (Num PInf)]]"



definition least_int_alone :: filesystem where
  "least_int_alone = [''min1.csv'' \<mapsto> Table header (with_values Int64)
     [mk_row (Num (Fin (- 900))) (Txt ''A'') (Num (Fin 1)) (Num (Fin (- 9223372036854775808)))]]"

definition near_overflow :: filesystem where
  "near_overflow = [''big.csv'' \<mapsto> Table header (with_values Float64)
     [mk_row (Num (Fin (- 900))) (Txt ''A'') (Num (Fin 1)) (Num (Fin (2 ^ 1023))),
      mk_row (Num (Fin (- 900))) (Txt ''A'') (Num (Fin 2)) (Num (Fin (2 ^ 1023)))]]"

definition rounded_sum :: filesystem where
  "rounded_sum = [''odd.csv'' \<mapsto> Table header (with_values Float64)
     [mk_row (Num (Fin (- 900))) (Txt ''A'') (Num (Fin 1)) (Num (Fin 9007199254740992)),
      mk_row (Num (Fin (- 900))) (Txt ''A'') (Num (Fin 2)) (Num (Fin 1))]]"

section \<open>The analysis over the rows of a table\<close>

text \<open>The dtype of the value column after line 27, \<open>c\<close> being the first column.\<close>

definition value_dtype :: "pandas \<Rightarrow> string \<Rightarrow> (string \<Rightarrow> dtype) \<Rightarrow> row list \<Rightarrow> dtype" where
  "value_dtype lib c dts rs =
     numeric_dtype lib (dts ''ValueG'')
       (map (\<lambda>r. r ''ValueG'') (filter (\<lambda>r. r c = Num (Fin (- 900))) rs))"

text \<open>The value that line 27 gives to a row read from the file.\<close>

definition converted :: "pandas \<Rightarrow> string \<Rightarrow> (string \<Rightarrow> dtype) \<Rightarrow> row list \<Rightarrow> row \<Rightarrow> fval" where
  "converted lib c dts rs r = to_numeric lib (value_dtype lib c dts rs) (r ''ValueG'')"

text \<open>
  What lines 24 to 28 keep of a row, \<open>conv\<close> being the conversion of line 27 for the
  file.
\<close>

definition valid_sample :: "(row \<Rightarrow> fval) \<Rightarrow> string \<Rightarrow> row \<Rightarrow> bool" where
  "valid_sample conv c r = (r c = Num (Fin (- 900)) \<and> conv r \<noteq> NaN)"

text \<open>A kept row as it stands after lines 27 and 31.\<close>

definition prep :: "(row \<Rightarrow> fval) \<Rightarrow> dtype \<Rightarrow> row \<Rightarrow> row" where
  "prep conv d r = (r(''ValueG'' := Num (conv r), ''AbsValueG'' := Num (abs_value d (conv r))))"

text \<open>The index labels of the rows that reach a group: kept, with both keys present.\<close>

definition grouped_labels :: "(row \<Rightarrow> fval) \<Rightarrow> string \<Rightarrow> row list \<Rightarrow> nat list" where
  "grouped_labels conv c rs =
     filter (\<lambda>i. valid_sample conv c (rs ! i) \<and> key_present (key_of (rs ! i))) [0..<length rs]"

text \<open>The keys of the groups, in the order of \<^verbatim>\<open>groupby\<close>.\<close>

definition group_keys :: "(row \<Rightarrow> fval) \<Rightarrow> string \<Rightarrow> row list \<Rightarrow> key list" where
  "group_keys conv c rs =
     sort_key key_rank (remdups (map (\<lambda>i. key_of (rs ! i)) (grouped_labels conv c rs)))"

text \<open>The index labels of the group of a key.\<close>

definition members :: "(row \<Rightarrow> fval) \<Rightarrow> string \<Rightarrow> row list \<Rightarrow> key \<Rightarrow> nat list" where
  "members conv c rs k = filter (\<lambda>i. key_of (rs ! i) = k) (grouped_labels conv c rs)"

text \<open>The values of \<^verbatim>\<open>ValueG\<close> in the group of a key.\<close>

definition group_values :: "(row \<Rightarrow> fval) \<Rightarrow> string \<Rightarrow> row list \<Rightarrow> key \<Rightarrow> fval list" where
  "group_values conv c rs k = map (\<lambda>i. conv (rs ! i)) (members conv c rs k)"

text \<open>The returned values written out over the rows of the table.\<close>

definition table_analysis :: "pandas \<Rightarrow> string \<Rightarrow> (string \<Rightarrow> dtype) \<Rightarrow> row list \<Rightarrow> analysis" where
  "table_analysis lib c dts rs =
     (let conv = converted lib c dts rs;
          d = value_dtype lib c dts rs;
          mx = map (\<lambda>k. (k, series_max (group_values conv c rs k))) (group_keys conv c rs);
          amx = map (\<lambda>k. (k, series_max (map (abs_value d) (group_values conv c rs k))))
                  (group_keys conv c rs)
      in \<lparr>max_values = mx, mean_of_maxes = series_mean (sum_order lib) (map snd mx),
          abs_max_values = amx, mean_of_abs_maxes = series_mean (sum_order lib) (map snd amx)\<rparr>)"

text \<open>
  A float64 mean without rounding: every position of the series is added once, no
  conversion and no addition of the summation rounds or overflows, and neither does
  the division by the count.
\<close>

fun positions :: "summation \<Rightarrow> nat list" where
  "positions (Value i) = [i]"
| "positions (Add l r) = positions l @ positions r"

fun exact_value :: "summation \<Rightarrow> rat list \<Rightarrow> rat" where
  "exact_value (Value i) qs = (if i < length qs then qs ! i else 0)"
| "exact_value (Add l r) qs = exact_value l qs + exact_value r qs"

fun exact_sum :: "summation \<Rightarrow> rat list \<Rightarrow> bool" where
  "exact_sum (Value i) qs = (round64 (exact_value (Value i) qs) = Fin (exact_value (Value i) qs))"
| "exact_sum (Add l r) qs =
     (exact_sum l qs \<and> exact_sum r qs
      \<and> round64 (exact_value (Add l r) qs) = Fin (exact_value (Add l r) qs))"

definition exact_mean :: "summation \<Rightarrow> rat list \<Rightarrow> bool" where
  "exact_mean p qs =
     (mset (positions p) = mset [0..<length qs] \<and> exact_sum p qs
      \<and> round64 (sum_list qs / of_nat (length qs)) = Fin (sum_list qs / of_nat (length qs)))"

section \<open>Facts about float64 rounding\<close>

lemma rne_bounds: "\<lfloor>x\<rfloor> \<le> rne x" "rne x \<le> \<lfloor>x\<rfloor> + 1"
  by (simp_all add: rne_def Let_def)

lemma rne_of_int: "rne (of_int n) = n"
  by (simp add: rne_def)

lemma rne_mono:
  assumes "x \<le> y"
  shows "rne x \<le> rne y"
proof (cases "\<lfloor>x\<rfloor> < \<lfloor>y\<rfloor>")
  case True
  have "rne x \<le> \<lfloor>x\<rfloor> + 1" by (rule rne_bounds)
  also have "\<dots> \<le> \<lfloor>y\<rfloor>" using True by simp
  also have "\<dots> \<le> rne y" by (rule rne_bounds)
  finally show ?thesis .
next
  case False
  moreover from assms have "\<lfloor>x\<rfloor> \<le> \<lfloor>y\<rfloor>" by (rule floor_mono)
  ultimately have e: "\<lfloor>x\<rfloor> = \<lfloor>y\<rfloor>" by simp
  with assms have "x - of_int \<lfloor>x\<rfloor> \<le> y - of_int \<lfloor>y\<rfloor>" by simp
  then show ?thesis
    unfolding rne_def Let_def e by auto
qed

lemma rne_ge_int: "of_int n \<le> x \<Longrightarrow> n \<le> rne x"
  using rne_mono[of "of_int n" x] by (simp add: rne_of_int)

lemma rne_le_int: "x \<le> of_int n \<Longrightarrow> rne x \<le> n"
  using rne_mono[of x "of_int n"] by (simp add: rne_of_int)

lemma bit_length_upper: "0 \<le> s \<Longrightarrow> s < 2 ^ bit_length s"
proof -
  assume s: "0 \<le> s"
  then have f: "0 \<le> \<lfloor>s\<rfloor>" by simp
  have "\<lfloor>s\<rfloor> < 2 ^ bit_length s"
  proof (cases "\<lfloor>s\<rfloor> = 0")
    case True
    then show ?thesis by simp
  next
    case False
    with f have "0 < \<lfloor>s\<rfloor>" by linarith
    from bitlen_bounds[OF this] show ?thesis by (simp add: bit_length_def)
  qed
  then have "\<lfloor>s\<rfloor> + 1 \<le> 2 ^ bit_length s" by simp
  then have "of_int (\<lfloor>s\<rfloor> + 1) \<le> (of_int (2 ^ bit_length s) :: rat)" by (simp only: of_int_le_iff)
  moreover have "s < of_int (\<lfloor>s\<rfloor> + 1)" by linarith
  ultimately show ?thesis by simp
qed

lemma bit_length_lower: "0 < bit_length s \<Longrightarrow> 2 ^ (bit_length s - 1) \<le> s"
proof -
  assume b: "0 < bit_length s"
  then have "0 < bitlen \<lfloor>s\<rfloor>" by (simp add: bit_length_def)
  then have p: "0 < \<lfloor>s\<rfloor>" by (metis bitlen_eq_zero_iff not_less order.order_iff_strict)
  from bitlen_bounds[OF p] have "2 ^ nat (bitlen \<lfloor>s\<rfloor> - 1) \<le> \<lfloor>s\<rfloor>" by simp
  moreover have "nat (bitlen \<lfloor>s\<rfloor> - 1) = bit_length s - 1"
    by (simp add: bit_length_def nat_diff_distrib')
  ultimately have "2 ^ (bit_length s - 1) \<le> \<lfloor>s\<rfloor>" by simp
  then have "(of_int (2 ^ (bit_length s - 1)) :: rat) \<le> of_int \<lfloor>s\<rfloor>" by (simp only: of_int_le_iff)
  also have "\<dots> \<le> s" by simp
  finally show ?thesis by simp
qed

lemma bit_length_le: "0 \<le> s \<Longrightarrow> s < 2 ^ b \<Longrightarrow> bit_length s \<le> b"
proof (rule ccontr)
  assume s: "0 \<le> s" "s < 2 ^ b" and "\<not> bit_length s \<le> b"
  then have l: "b \<le> bit_length s - 1" "0 < bit_length s" by simp_all
  from l(2) have "2 ^ (bit_length s - 1) \<le> s" by (rule bit_length_lower)
  moreover have "(2::rat) ^ b \<le> 2 ^ (bit_length s - 1)"
    using l(1) by (intro power_increasing) simp_all
  ultimately show False using s(2) by linarith
qed

lemma bit_length_gt: "2 ^ b \<le> s \<Longrightarrow> b < bit_length s"
proof (rule ccontr)
  assume s: "2 ^ b \<le> s" and "\<not> b < bit_length s"
  then have l: "bit_length s \<le> b" by simp
  have "0 \<le> s" using s by (meson order_trans zero_le_numeral zero_le_power)
  then have "s < 2 ^ bit_length s" by (rule bit_length_upper)
  moreover have "(2::rat) ^ bit_length s \<le> 2 ^ b" using l by (intro power_increasing) simp_all
  ultimately show False using s by linarith
qed

lemma bit_length_mono: "0 \<le> x \<Longrightarrow> x \<le> y \<Longrightarrow> bit_length x \<le> bit_length y"
proof -
  assume x: "0 \<le> x" and xy: "x \<le> y"
  have "y < 2 ^ bit_length y" using x xy by (intro bit_length_upper) simp
  with xy have "x < 2 ^ bit_length y" by simp
  with x show ?thesis by (rule bit_length_le)
qed

lemma shift64_mono: "0 \<le> x \<Longrightarrow> x \<le> y \<Longrightarrow> shift64 x \<le> shift64 y"
  using bit_length_mono[of x y] by (simp add: shift64_def)

lemma round_scaled_nonneg: "0 \<le> s \<Longrightarrow> 0 \<le> round_scaled s"
proof -
  assume "0 \<le> s"
  then have "of_int 0 \<le> s / 2 ^ shift64 s" by simp
  then have "0 \<le> rne (s / 2 ^ shift64 s)" by (rule rne_ge_int)
  then show ?thesis by (simp add: round_scaled_def)
qed

lemma round_scaled_upper:
  assumes "0 \<le> s"
  shows "round_scaled s \<le> 2 ^ bit_length s"
proof -
  define h where "h = shift64 s"
  have "h \<le> bit_length s" by (simp add: h_def shift64_def)
  then obtain e where b: "bit_length s = e + h" by (metis le_add_diff_inverse2)
  have "s < 2 ^ bit_length s" using assms by (rule bit_length_upper)
  then have "s / 2 ^ h \<le> 2 ^ (e + h) / 2 ^ h" unfolding b by (simp add: divide_right_mono)
  then have "s / 2 ^ h \<le> of_int (2 ^ e)" by (simp add: power_add)
  then have "rne (s / 2 ^ h) \<le> 2 ^ e" by (rule rne_le_int)
  then have "rne (s / 2 ^ h) * 2 ^ h \<le> 2 ^ e * 2 ^ h"
    by (intro mult_right_mono) simp_all
  then show ?thesis unfolding round_scaled_def b h_def[symmetric] by (simp add: power_add)
qed

lemma round_scaled_lower:
  assumes "53 < bit_length s"
  shows "2 ^ (bit_length s - 1) \<le> round_scaled s"
proof -
  define h where "h = shift64 s"
  define k where "k = bit_length s - 1 - h"
  from assms have "h \<le> bit_length s - 1" by (simp add: h_def shift64_def)
  then have e: "bit_length s - 1 = k + h" by (simp add: k_def)
  from assms have "2 ^ (bit_length s - 1) \<le> s" by (intro bit_length_lower) simp
  then have "2 ^ (k + h) / 2 ^ h \<le> s / 2 ^ h" unfolding e by (simp add: divide_right_mono)
  then have "of_int (2 ^ k) \<le> s / 2 ^ h" by (simp add: power_add)
  then have "2 ^ k \<le> rne (s / 2 ^ h)" by (rule rne_ge_int)
  then have "2 ^ k * 2 ^ h \<le> rne (s / 2 ^ h) * 2 ^ h"
    by (intro mult_right_mono) simp_all
  then show ?thesis unfolding round_scaled_def e h_def[symmetric] by (simp add: power_add)
qed

lemma round_scaled_mono:
  assumes "0 \<le> x" and "x \<le> y"
  shows "round_scaled x \<le> round_scaled y"
proof (cases "shift64 x = shift64 y")
  case True
  from assms(2) have "x / 2 ^ shift64 y \<le> y / 2 ^ shift64 y" by (simp add: divide_right_mono)
  then have "rne (x / 2 ^ shift64 y) \<le> rne (y / 2 ^ shift64 y)" by (rule rne_mono)
  then show ?thesis unfolding round_scaled_def True by (intro mult_right_mono) simp_all
next
  case False
  with shift64_mono[OF assms] have l: "shift64 x < shift64 y" by simp
  then have b53: "53 < bit_length y" and bxy: "bit_length x < bit_length y"
    by (simp_all add: shift64_def)
  have "round_scaled x \<le> 2 ^ bit_length x" using assms(1) by (rule round_scaled_upper)
  also have "\<dots> \<le> (2::int) ^ (bit_length y - 1)" using bxy by (intro power_increasing) simp_all
  also have "\<dots> \<le> round_scaled y" using b53 by (rule round_scaled_lower)
  finally show ?thesis .
qed

lemma round_pos_cases:
  "round_pos q = PInf \<or> (\<exists>a. round_pos q = Fin a \<and> (0 \<le> q \<longrightarrow> 0 \<le> a))"
  using round_scaled_nonneg[of "q * 2 ^ denormal_bits"]
  by (auto simp: round_pos_def Let_def)

lemma round_pos_mono:
  assumes "0 \<le> x" and "x \<le> y"
  shows "fle (round_pos x) (round_pos y)"
proof -
  have l: "round_scaled (x * 2 ^ denormal_bits) \<le> round_scaled (y * 2 ^ denormal_bits)"
    using assms by (intro round_scaled_mono) simp_all
  then have "rat_of_int (round_scaled (x * 2 ^ denormal_bits)) / 2 ^ denormal_bits
           \<le> rat_of_int (round_scaled (y * 2 ^ denormal_bits)) / 2 ^ denormal_bits"
    by (intro divide_right_mono) simp_all
  with l show ?thesis
    by (auto simp: round_pos_def Let_def fle_def not_less)
qed

lemma round_pos_zero: "round_pos 0 = Fin 0"
  by (simp add: round_pos_def round_scaled_def shift64_def bit_length_def rne_def)

lemma round64_zero: "round64 0 = Fin 0"
  by (simp add: round64_def round_pos_zero)

lemma round64_not_NaN: "round64 q \<noteq> NaN"
  using round_pos_cases[of q] round_pos_cases[of "- q"]
  by (auto simp: round64_def)

lemma fle_fneg: "fle a b \<Longrightarrow> fle (fneg b) (fneg a)"
  by (cases a; cases b) (simp_all add: fle_def)

lemma round64_mono:
  assumes "x \<le> y"
  shows "fle (round64 x) (round64 y)"
proof -
  consider "0 \<le> x" | "y < 0" | "x < 0" "0 \<le> y" by linarith
  then show ?thesis
  proof cases
    case 1
    with assms show ?thesis by (simp add: round64_def round_pos_mono)
  next
    case 2
    with assms have "fle (round_pos (- y)) (round_pos (- x))" by (intro round_pos_mono) simp_all
    then have "fle (fneg (round_pos (- x))) (fneg (round_pos (- y)))" by (rule fle_fneg)
    with 2 assms show ?thesis by (simp add: round64_def)
  next
    case 3
    from round_pos_cases[of "- x"] round_pos_cases[of y] 3 show ?thesis
      by (auto simp: round64_def fle_def)
  qed
qed

lemma round64_minus: "round64 (- q) = fneg (round64 q)"
proof -
  have "fneg (fneg v) = v" for v by (cases v) simp_all
  then show ?thesis
    by (cases "q = 0") (auto simp: round64_def round_pos_zero)
qed

lemma float64_bits: "53 + denormal_bits < overflow_bits" "1024 + denormal_bits = overflow_bits"
  by (simp_all add: denormal_bits_def overflow_bits_def)

text \<open>A value with at most 53 significant bits within the range is not rounded.\<close>

lemma round_pos_exact:
  assumes "q * 2 ^ denormal_bits = of_int n * 2 ^ d"
    and "0 \<le> n" and "n < 2 ^ 53" and "53 + d \<le> overflow_bits"
  shows "round_pos q = Fin q"
proof -
  define s :: rat where "s = of_int n * 2 ^ d"
  define h where "h = shift64 s"
  have s0: "0 \<le> s" using assms(2) by (simp add: s_def)
  have "of_int n < (2::rat) ^ 53" using assms(3) by (metis of_int_less_iff of_int_numeral of_int_power)
  then have "s < 2 ^ 53 * 2 ^ d" unfolding s_def by (intro mult_strict_right_mono) simp_all
  then have "s < 2 ^ (53 + d)" by (simp add: power_add)
  with s0 have "bit_length s \<le> 53 + d" by (rule bit_length_le)
  then have "h \<le> d" by (simp add: h_def shift64_def)
  then obtain e where de: "d = e + h" by (metis le_add_diff_inverse2)
  have "s / 2 ^ h = of_int (n * 2 ^ e)" by (simp add: s_def de power_add)
  then have "rne (s / 2 ^ h) = n * 2 ^ e" by (simp only: rne_of_int)
  then have "rne (s / 2 ^ h) * 2 ^ h = n * 2 ^ d" by (simp add: de power_add)
  then have r: "round_scaled s = n * 2 ^ d" unfolding round_scaled_def h_def .
  have "n * 2 ^ d < 2 ^ 53 * 2 ^ d" using assms(3) by (intro mult_strict_right_mono) simp_all
  also have "\<dots> = (2::int) ^ (53 + d)" by (simp add: power_add)
  also have "\<dots> \<le> 2 ^ overflow_bits" using assms(4) by (intro power_increasing) simp_all
  finally have o: "\<not> 2 ^ overflow_bits \<le> n * 2 ^ d" by simp
  have "rat_of_int (n * 2 ^ d) = q * 2 ^ denormal_bits" by (simp add: assms(1))
  then have "rat_of_int (n * 2 ^ d) / 2 ^ denormal_bits = q" by simp
  with o show ?thesis
    unfolding round_pos_def assms(1) s_def[symmetric] r Let_def by simp
qed

text \<open>A value between \<open>2 ^ 52\<close> and \<open>2 ^ 53\<close> units is rounded to a whole number of units.\<close>

lemma round_pos_binade:
  assumes "q * 2 ^ denormal_bits = t * 2 ^ d" and "2 ^ 52 \<le> t" and "t < 2 ^ 53"
  shows "round_pos q = (if 2 ^ overflow_bits \<le> rne t * 2 ^ d then PInf
                        else Fin (of_int (rne t * 2 ^ d) / 2 ^ denormal_bits))"
proof -
  define s where "s = t * 2 ^ d"
  have t0: "0 \<le> t" using assms(2) by (meson order_trans zero_le_numeral zero_le_power)
  then have s0: "0 \<le> s" by (simp add: s_def)
  have "t * 2 ^ d < 2 ^ 53 * 2 ^ d" using assms(3) by (intro mult_strict_right_mono) simp_all
  then have "s < 2 ^ (53 + d)" by (simp add: s_def power_add)
  with s0 have u: "bit_length s \<le> 53 + d" by (rule bit_length_le)
  have "2 ^ 52 * 2 ^ d \<le> t * 2 ^ d" using assms(2) by (intro mult_right_mono) simp_all
  then have "2 ^ (52 + d) \<le> s" by (simp add: s_def power_add)
  then have "52 + d < bit_length s" by (rule bit_length_gt)
  with u have "bit_length s = 53 + d" by simp
  then have h: "shift64 s = d" by (simp add: shift64_def)
  have "s / 2 ^ d = t" by (simp add: s_def)
  then have r: "round_scaled s = rne t * 2 ^ d"
    unfolding round_scaled_def h by simp
  show ?thesis
    unfolding round_pos_def assms(1) s_def[symmetric] r Let_def by simp
qed

lemma round_scaled_power: "round_scaled (2 ^ n) = 2 ^ n"
proof -
  have "\<lfloor>(2::rat) ^ n\<rfloor> = 2 ^ n" by (metis floor_of_int of_int_numeral of_int_power)
  moreover have "bitlen (1 * 2 ^ n) = bitlen 1 + int n" by (rule bitlen_pow2) simp
  moreover have "bitlen 1 = 1" by (simp add: bitlen_alt_def)
  ultimately have b: "bit_length (2 ^ n) = n + 1" by (simp add: bit_length_def)
  define h where "h = shift64 ((2::rat) ^ n)"
  from b have "h \<le> n" by (simp add: h_def shift64_def)
  then obtain e where n: "n = e + h" by (metis le_add_diff_inverse2)
  have "(2::rat) ^ n / 2 ^ h = of_int (2 ^ e)" by (simp add: n power_add)
  then have "rne ((2::rat) ^ n / 2 ^ h) = 2 ^ e" by (simp only: rne_of_int)
  then have "rne ((2::rat) ^ n / 2 ^ h) * 2 ^ h = 2 ^ n" by (simp add: n power_add)
  then show ?thesis unfolding round_scaled_def h_def .
qed

lemma round_pos_overflow:
  assumes "2 ^ 1024 \<le> q"
  shows "round_pos q = PInf"
proof -
  have "(2::rat) ^ overflow_bits = 2 ^ 1024 * 2 ^ denormal_bits"
    by (simp flip: float64_bits(2) add: power_add)
  also have "\<dots> \<le> q * 2 ^ denormal_bits" using assms by (intro mult_right_mono) simp_all
  finally have "round_scaled (2 ^ overflow_bits) \<le> round_scaled (q * 2 ^ denormal_bits)"
    by (intro round_scaled_mono) simp_all
  then show ?thesis by (simp add: round_pos_def round_scaled_power)
qed

lemma round64_overflow: "2 ^ 1024 \<le> q \<Longrightarrow> round64 q = PInf"
proof -
  assume q: "2 ^ 1024 \<le> q"
  then have "0 \<le> q" by (meson order_trans zero_le_numeral zero_le_power)
  with q show ?thesis by (simp add: round64_def round_pos_overflow)
qed

lemma round64_fraction_pos:
  assumes "0 \<le> q" and "q * 2 ^ k < 2 ^ 53" and "of_int \<lfloor>q * 2 ^ k\<rfloor> = q * 2 ^ k"
    and "k \<le> denormal_bits"
  shows "round64 q = Fin q"
proof -
  define n where "n = \<lfloor>q * 2 ^ k\<rfloor>"
  from assms(4) obtain d where t: "denormal_bits = d + k" by (metis le_add_diff_inverse2)
  have n: "of_int n = q * 2 ^ k" using assms(3) by (simp only: n_def)
  have "q * 2 ^ denormal_bits = (q * 2 ^ k) * 2 ^ d" by (simp add: t power_add)
  then have 1: "q * 2 ^ denormal_bits = of_int n * 2 ^ d" by (simp only: n)
  have 2: "0 \<le> n" using assms(1) by (simp add: n_def)
  have 3: "n < 2 ^ 53" using assms(2) unfolding n_def by (simp add: floor_less_iff)
  have 4: "53 + d \<le> overflow_bits" using t float64_bits(1) by simp
  from round_pos_exact[OF 1 2 3 4] assms(1) show ?thesis by (simp add: round64_def)
qed

lemma round64_multiple_pos:
  assumes "0 \<le> q" and "q / 2 ^ j < 2 ^ 53" and "of_int \<lfloor>q / 2 ^ j\<rfloor> = q / 2 ^ j"
    and "j \<le> 971"
  shows "round64 q = Fin q"
proof -
  define n where "n = \<lfloor>q / 2 ^ j\<rfloor>"
  have n: "of_int n = q / 2 ^ j" using assms(3) by (simp only: n_def)
  have "q * 2 ^ denormal_bits = (q / 2 ^ j) * 2 ^ (j + denormal_bits)" by (simp add: power_add)
  then have 1: "q * 2 ^ denormal_bits = of_int n * 2 ^ (j + denormal_bits)" by (simp only: n)
  have 2: "0 \<le> n" using assms(1) by (simp add: n_def)
  have 3: "n < 2 ^ 53" using assms(2) unfolding n_def by (simp add: floor_less_iff)
  have 4: "53 + (j + denormal_bits) \<le> overflow_bits"
    using assms(4) by (simp add: denormal_bits_def overflow_bits_def)
  from round_pos_exact[OF 1 2 3 4] assms(1) show ?thesis by (simp add: round64_def)
qed

lemma round64_of_negative:
  assumes "round64 (- q) = Fin (- q)"
  shows "round64 q = Fin q"
proof -
  from assms have "fneg (round64 q) = Fin (- q)" by (simp add: round64_minus)
  then show ?thesis by (cases "round64 q") simp_all
qed

lemma round64_fraction:
  assumes "\<bar>q\<bar> * 2 ^ k < 2 ^ 53" and "of_int \<lfloor>\<bar>q\<bar> * 2 ^ k\<rfloor> = \<bar>q\<bar> * 2 ^ k"
    and "k \<le> denormal_bits"
  shows "round64 q = Fin q"
proof (cases "0 \<le> q")
  case True
  with assms show ?thesis by (intro round64_fraction_pos[where k=k]) simp_all
next
  case False
  with assms have "round64 (- q) = Fin (- q)" by (intro round64_fraction_pos[where k=k]) simp_all
  then show ?thesis by (rule round64_of_negative)
qed

lemma round64_multiple:
  assumes "\<bar>q\<bar> / 2 ^ j < 2 ^ 53" and "of_int \<lfloor>\<bar>q\<bar> / 2 ^ j\<rfloor> = \<bar>q\<bar> / 2 ^ j" and "j \<le> 971"
  shows "round64 q = Fin q"
proof (cases "0 \<le> q")
  case True
  with assms show ?thesis by (intro round64_multiple_pos[where j=j]) simp_all
next
  case False
  with assms have "round64 (- q) = Fin (- q)" by (intro round64_multiple_pos[where j=j]) simp_all
  then show ?thesis by (rule round64_of_negative)
qed

lemma round64_binade_fraction:
  assumes "2 ^ 52 \<le> q * 2 ^ k" and "q * 2 ^ k < 2 ^ 53" and "k \<le> denormal_bits"
  shows "round64 q = Fin (of_int (rne (q * 2 ^ k)) / 2 ^ k)"
proof -
  from assms(3) obtain d where t: "denormal_bits = d + k" by (metis le_add_diff_inverse2)
  have 1: "q * 2 ^ denormal_bits = (q * 2 ^ k) * 2 ^ d" by (simp add: t power_add)
  have "q * 2 ^ k \<le> of_int (2 ^ 53)" using assms(2) by simp
  then have "rne (q * 2 ^ k) \<le> 2 ^ 53" by (rule rne_le_int)
  then have "rne (q * 2 ^ k) * 2 ^ d \<le> 2 ^ 53 * 2 ^ d" by (intro mult_right_mono) simp_all
  also have "\<dots> = (2::int) ^ (53 + d)" by (simp add: power_add)
  also have "\<dots> < 2 ^ overflow_bits" using float64_bits(1) t by (intro power_strict_increasing) simp_all
  finally have o: "\<not> 2 ^ overflow_bits \<le> rne (q * 2 ^ k) * 2 ^ d" by simp
  have "0 \<le> q * 2 ^ k" using assms(1) by (meson order_trans zero_le_numeral zero_le_power)
  then have q: "0 \<le> q" using mult_neg_pos[of q "2 ^ k"] by (cases "q < 0") simp_all
  have "rat_of_int (rne (q * 2 ^ k) * 2 ^ d) / 2 ^ denormal_bits = of_int (rne (q * 2 ^ k)) / 2 ^ k"
    by (simp add: t power_add)
  with round_pos_binade[OF 1 assms(1,2)] o q show ?thesis by (simp add: round64_def)
qed

lemma round64_binade_multiple:
  assumes "2 ^ 52 \<le> q / 2 ^ j" and "q / 2 ^ j < 2 ^ 53" and "j \<le> 970"
  shows "round64 q = Fin (of_int (rne (q / 2 ^ j)) * 2 ^ j)"
proof -
  define d where "d = j + denormal_bits"
  have 1: "q * 2 ^ denormal_bits = (q / 2 ^ j) * 2 ^ d" by (simp add: d_def power_add)
  have "q / 2 ^ j \<le> of_int (2 ^ 53)" using assms(2) by simp
  then have "rne (q / 2 ^ j) \<le> 2 ^ 53" by (rule rne_le_int)
  then have "rne (q / 2 ^ j) * 2 ^ d \<le> 2 ^ 53 * 2 ^ d" by (intro mult_right_mono) simp_all
  also have "\<dots> = (2::int) ^ (53 + d)" by (simp add: power_add)
  also have "\<dots> < 2 ^ overflow_bits"
    using assms(3) by (intro power_strict_increasing) (simp_all add: d_def denormal_bits_def overflow_bits_def)
  finally have o: "\<not> 2 ^ overflow_bits \<le> rne (q / 2 ^ j) * 2 ^ d" by simp
  have "0 \<le> q / 2 ^ j" using assms(1) by (meson order_trans zero_le_numeral zero_le_power)
  then have q: "0 \<le> q" using divide_neg_pos[of q "2 ^ j"] by (cases "q < 0") simp_all
  have "rat_of_int (rne (q / 2 ^ j) * 2 ^ d) / 2 ^ denormal_bits = of_int (rne (q / 2 ^ j)) * 2 ^ j"
    by (simp add: d_def power_add)
  with round_pos_binade[OF 1 assms(1,2)] o q show ?thesis by (simp add: round64_def)
qed

text \<open>The instances that evaluate the roundings of the examples.\<close>

lemmas round64_eval =
  round64_fraction[where k=0, simplified] round64_fraction[where k=50, simplified denormal_bits_def, simplified]
  round64_multiple[where j=11, simplified] round64_multiple[where j=971, simplified]
  round64_binade_fraction[where k=49, simplified denormal_bits_def, simplified]
  round64_binade_multiple[where j=1, simplified]
  round64_overflow

section \<open>Facts about the order, the maximum and the float64 sum\<close>

lemma zip_upt_nth: "zip [0..<length rs] rs = map (\<lambda>i. (i, rs ! i)) [0..<length rs]"
  by (rule nth_equalityI) auto

lemma nth_filter_upt: "map ((!) rs) (filter (\<lambda>i. P (rs ! i)) [0..<length rs]) = filter P rs"
proof -
  have "filter P (map ((!) rs) [0..<length rs]) = map ((!) rs) (filter (P \<circ> (!) rs) [0..<length rs])"
    by (rule filter_map)
  then show ?thesis by (simp add: map_nth comp_def)
qed

lemma fle_refl: "x \<noteq> NaN \<Longrightarrow> fle x x"
  by (cases x) (simp_all add: fle_def)

lemma fle_trans: "fle x y \<Longrightarrow> fle y z \<Longrightarrow> fle x z"
  by (cases x; cases y; cases z) (simp_all add: fle_def)

lemma fle_antisym: "fle x y \<Longrightarrow> fle y x \<Longrightarrow> x = y"
  by (cases x; cases y) (simp_all add: fle_def)

lemma fle_NInf: "x \<noteq> NaN \<Longrightarrow> fle NInf x"
  by (cases x) (simp_all add: fle_def)

lemma max_step_cases:
  "m \<noteq> NaN \<Longrightarrow> v \<noteq> NaN \<Longrightarrow>
     (max_step v m = v \<or> max_step v m = m) \<and> fle v (max_step v m) \<and> fle m (max_step v m)"
  by (cases m; cases v) (auto simp: max_step_def fle_def)

lemma fold_max_step:
  assumes "m \<noteq> NaN" and "\<forall>x\<in>set vs. x \<noteq> NaN"
  shows "fold max_step vs m \<in> insert m (set vs)
         \<and> fle m (fold max_step vs m)
         \<and> (\<forall>x\<in>set vs. fle x (fold max_step vs m))"
  using assms
proof (induction vs arbitrary: m)
  case Nil
  then show ?case by (simp add: fle_refl)
next
  case (Cons v vs)
  let ?m = "max_step v m"
  from Cons.prems have v: "v \<noteq> NaN" and vs: "\<forall>x\<in>set vs. x \<noteq> NaN" by simp_all
  note s = max_step_cases[OF Cons.prems(1) v]
  from s Cons.prems(1) v have m': "?m \<noteq> NaN" by auto
  note ih = Cons.IH[OF m' vs]
  from ih s show ?case
    by (auto intro: fle_trans)
qed

lemma series_max_greatest:
  assumes "vs \<noteq> []" and "\<forall>x\<in>set vs. x \<noteq> NaN"
  shows "series_max vs \<in> set vs" and "\<forall>x\<in>set vs. fle x (series_max vs)"
proof -
  have f: "fold max_step vs NInf \<in> insert NInf (set vs)
         \<and> fle NInf (fold max_step vs NInf)
         \<and> (\<forall>x\<in>set vs. fle x (fold max_step vs NInf))"
    by (rule fold_max_step) (use assms in auto)
  then show g: "\<forall>x\<in>set vs. fle x (series_max vs)" by (simp add: series_max_def)
  from assms obtain x where x: "x \<in> set vs" by (cases vs) auto
  show "series_max vs \<in> set vs"
  proof (cases "series_max vs = NInf")
    case True
    with g x have "fle x NInf" by auto
    moreover have "fle NInf x" using x assms(2) by (auto intro: fle_NInf)
    ultimately have "x = NInf" by (rule fle_antisym)
    with x True show ?thesis by simp
  next
    case False
    with f show ?thesis by (auto simp: series_max_def)
  qed
qed

lemma max_step_commute: "max_step x (max_step y m) = max_step y (max_step x m)"
  by (cases x; cases y; cases m) (auto simp: max_step_def)

lemma series_max_mset: "mset vs = mset ws \<Longrightarrow> series_max vs = series_max ws"
  unfolding series_max_def
  by (rule arg_cong[where f="\<lambda>f. f NInf"], rule fold_multiset_equiv)
     (auto simp: fun_eq_iff max_step_commute)

lemma inj_cell_rank: "inj cell_rank"
proof (rule injI)
  fix x y assume "cell_rank x = cell_rank y"
  then show "x = y"
    by (cases x rule: cell_rank.cases; cases y rule: cell_rank.cases) simp_all
qed

lemma inj_key_rank: "inj key_rank"
proof (rule injI)
  fix x y assume "key_rank x = key_rank y"
  then have "cell_rank (fst x) = cell_rank (fst y)" and "cell_rank (snd x) = cell_rank (snd y)"
    by (simp_all add: key_rank_def)
  then have "fst x = fst y" and "snd x = snd y"
    by (simp_all add: inj_eq[OF inj_cell_rank])
  then show "x = y" by (rule prod_eqI)
qed

lemma sort_key_remdups_cong:
  assumes "inj f" and "set xs = set ys"
  shows "sort_key f (remdups xs) = sort_key f (remdups ys)"
proof -
  let ?a = "sort_key f (remdups xs)" and ?b = "sort_key f (remdups ys)"
  have "map f ?a = map f ?b"
  proof (rule sorted_distinct_set_unique)
    show "sorted (map f ?a)" "sorted (map f ?b)" by simp_all
    show "distinct (map f ?a)" "distinct (map f ?b)"
      using assms(1) by (simp_all add: distinct_map inj_on_def inj_def)
    show "set (map f ?a) = set (map f ?b)" using assms(2) by simp
  qed
  with assms(1) show ?thesis by simp
qed

lemma fabs_NaN: "fabs x = NaN \<longleftrightarrow> x = NaN"
  by (cases x) simp_all

lemma fle_fabs: "x \<noteq> NaN \<Longrightarrow> fle x (fabs x) \<and> fle (Fin 0) (fabs x)"
  by (cases x) (simp_all add: fle_def)

lemma fle_PInf: "x \<noteq> NaN \<Longrightarrow> fle x PInf"
  by (cases x) (simp_all add: fle_def)

lemma fle_Fin: "fle (Fin a) (Fin b) \<longleftrightarrow> a \<le> b"
  by (auto simp: fle_def)

lemma to_float64_mono: "fle x y \<Longrightarrow> fle (to_float64 x) (to_float64 y)"
proof (cases x; cases y)
  fix a b assume "fle x y" "x = Fin a" "y = Fin b"
  then show ?thesis by (simp add: fle_Fin round64_mono)
qed (simp_all add: fle_PInf fle_NInf round64_not_NaN, simp_all add: fle_def)

lemma fadd_NaN: "fadd a b \<noteq> NaN \<Longrightarrow> a \<noteq> NaN \<and> b \<noteq> NaN"
  by (cases a; cases b) simp_all

lemma fadd_mono:
  assumes "fle a b" and "fle c d" and "fadd a c \<noteq> NaN" and "fadd b d \<noteq> NaN"
  shows "fle (fadd a c) (fadd b d)"
proof -
  have r: "fle (round64 (p + q)) (round64 (u + v))" if "p \<le> u" "q \<le> v" for p q u v
    using that by (intro round64_mono add_mono)
  have i: "fle (round64 p) PInf" "fle NInf (round64 p)" for p
    by (simp_all add: fle_PInf fle_NInf round64_not_NaN)
  have s: "fle PInf PInf" "fle NInf NInf" "fle NInf PInf"
    by (simp_all add: fle_def)
  from assms show ?thesis
    by (cases a; cases b; cases c; cases d) (simp_all add: fle_Fin r i s, simp_all add: fle_def)
qed

lemma fadd_nonneg:
  assumes "fle (Fin 0) a" and "fle (Fin 0) b"
  shows "fle (Fin 0) (fadd a b)"
proof -
  have r: "fle (Fin 0) (round64 (p + q))" if "0 \<le> p" "0 \<le> q" for p q
  proof -
    from that have "fle (round64 0) (round64 (p + q))" by (intro round64_mono) simp
    then show ?thesis by (simp add: round64_zero)
  qed
  from assms show ?thesis
    by (cases a; cases b) (simp_all add: fle_Fin r, simp_all add: fle_def)
qed

lemma fdiv_NaN: "0 < n \<Longrightarrow> fdiv x n = NaN \<longleftrightarrow> x = NaN"
  by (cases x) (simp_all add: fdiv_def round64_not_NaN)

lemma fdiv_mono:
  assumes "0 < n" and "fle x y"
  shows "fle (fdiv x n) (fdiv y n)"
proof -
  have r: "fle (round64 (p / of_nat n)) (round64 (q / of_nat n))" if "p \<le> q" for p q
    using that by (intro round64_mono divide_right_mono) simp_all
  have i: "fle (round64 p) PInf" "fle NInf (round64 p)" for p
    by (simp_all add: fle_PInf fle_NInf round64_not_NaN)
  from assms show ?thesis
    by (cases x; cases y) (simp_all add: fdiv_def fle_Fin r i, simp_all add: fle_def)
qed

lemma fdiv_nonneg: "0 < n \<Longrightarrow> fle (Fin 0) y \<Longrightarrow> fle (Fin 0) (fdiv y n)"
  using fdiv_mono[of n "Fin 0" y] by (simp add: fdiv_def round64_zero)

lemma float_sum_mono:
  assumes "list_all2 fle xs ys"
    and "float_sum p xs \<noteq> NaN" and "float_sum p ys \<noteq> NaN"
  shows "fle (float_sum p xs) (float_sum p ys)"
  using assms(2,3)
proof (induction p)
  case (Value i)
  from assms(1) have l: "length xs = length ys" by (rule list_all2_lengthD)
  show ?case
  proof (cases "i < length xs")
    case True
    with assms(1) have "fle (xs ! i) (ys ! i)" by (simp add: list_all2_nthD)
    then have "fle (to_float64 (xs ! i)) (to_float64 (ys ! i))" by (rule to_float64_mono)
    with True l show ?thesis by simp
  next
    case False
    with l show ?thesis by (simp add: fle_Fin)
  qed
next
  case (Add l r)
  from Add.prems have n: "float_sum l xs \<noteq> NaN" "float_sum r xs \<noteq> NaN"
    "float_sum l ys \<noteq> NaN" "float_sum r ys \<noteq> NaN"
    by (auto dest: fadd_NaN)
  from Add.IH(1)[OF n(1,3)] Add.IH(2)[OF n(2,4)] Add.prems show ?case
    by (simp add: fadd_mono)
qed

lemma float_sum_nonneg:
  assumes "\<forall>y\<in>set ys. fle (Fin 0) y"
  shows "fle (Fin 0) (float_sum p ys)"
proof (induction p)
  case (Value i)
  show ?case
  proof (cases "i < length ys")
    case True
    with assms have "fle (Fin 0) (ys ! i)" by simp
    then have "fle (to_float64 (Fin 0)) (to_float64 (ys ! i))" by (rule to_float64_mono)
    with True show ?thesis by (simp add: round64_zero)
  next
    case False
    then show ?thesis by (simp add: fle_Fin)
  qed
next
  case (Add l r)
  then show ?case by (simp add: fadd_nonneg)
qed

lemma series_mean_present:
  assumes "vs \<noteq> []" and "\<forall>v\<in>set vs. v \<noteq> NaN"
  shows "series_mean order vs = fdiv (float_sum (order (length vs)) vs) (length vs)"
proof -
  from assms(2) have f: "filter (\<lambda>v. v \<noteq> NaN) vs = vs" by (simp add: filter_id_conv)
  from assms(2) have m: "map (\<lambda>v. if v = NaN then Fin 0 else v) vs = vs"
    by (simp add: map_idI)
  from assms(1) show ?thesis by (simp add: series_mean_def f m)
qed

lemma series_mean_bounds:
  assumes "list_all2 fle xs ys" and "xs \<noteq> []"
  shows "(\<forall>y\<in>set ys. fle (Fin 0) y) \<Longrightarrow> fle (Fin 0) (series_mean order ys)"
    and "series_mean order xs \<noteq> NaN \<Longrightarrow> series_mean order ys \<noteq> NaN \<Longrightarrow>
         fle (series_mean order xs) (series_mean order ys)"
proof -
  from assms(1) have l: "length xs = length ys" by (rule list_all2_lengthD)
  with assms(2) have ys: "ys \<noteq> []" and n: "0 < length ys" by auto
  have nx: "\<forall>v\<in>set xs. v \<noteq> NaN"
  proof
    fix v assume "v \<in> set xs"
    then obtain i where "i < length xs" "xs ! i = v" by (auto simp: in_set_conv_nth)
    with assms(1) have "fle v (ys ! i)" by (auto simp: list_all2_conv_all_nth)
    then show "v \<noteq> NaN" by (simp add: fle_def)
  qed
  have ny: "\<forall>v\<in>set ys. v \<noteq> NaN"
  proof
    fix v assume "v \<in> set ys"
    then obtain i where "i < length ys" "ys ! i = v" by (auto simp: in_set_conv_nth)
    with assms(1) have "fle (xs ! i) v" by (auto simp: list_all2_conv_all_nth)
    then show "v \<noteq> NaN" by (simp add: fle_def)
  qed
  note mx = series_mean_present[OF assms(2) nx, of order]
    and my = series_mean_present[OF ys ny, of order]
  show "fle (Fin 0) (series_mean order ys)" if "\<forall>y\<in>set ys. fle (Fin 0) y"
    unfolding my using n float_sum_nonneg[OF that] by (rule fdiv_nonneg)
  show "fle (series_mean order xs) (series_mean order ys)"
    if "series_mean order xs \<noteq> NaN" "series_mean order ys \<noteq> NaN"
  proof -
    from that n l have "float_sum (order (length ys)) xs \<noteq> NaN" "float_sum (order (length ys)) ys \<noteq> NaN"
      by (simp_all add: mx my fdiv_NaN)
    with assms(1) have "fle (float_sum (order (length ys)) xs) (float_sum (order (length ys)) ys)"
      by (rule float_sum_mono)
    with n show ?thesis unfolding mx my l by (rule fdiv_mono)
  qed
qed

lemma float_sum_exact:
  "exact_sum p qs \<Longrightarrow> float_sum p (map Fin qs) = Fin (exact_value p qs)"
  by (induction p) (auto simp: nth_map)

lemma exact_value_positions:
  "exact_value p qs = sum_list (map (\<lambda>i. if i < length qs then qs ! i else 0) (positions p))"
  by (induction p) simp_all

lemma exact_value_sum:
  assumes "mset (positions p) = mset [0..<length qs]"
  shows "exact_value p qs = sum_list qs"
proof -
  let ?f = "\<lambda>i. if i < length qs then qs ! i else 0"
  have "exact_value p qs = sum_mset (image_mset ?f (mset (positions p)))"
    by (simp add: exact_value_positions flip: sum_mset_sum_list)
  also have "\<dots> = sum_list (map ?f [0..<length qs])"
    unfolding assms by (simp flip: sum_mset_sum_list)
  also have "map ?f [0..<length qs] = map ((!) qs) [0..<length qs]" by simp
  also have "\<dots> = qs" by (rule map_nth)
  finally show ?thesis .
qed

lemma series_mean_exact:
  assumes "qs \<noteq> []" and "exact_mean (order (length qs)) qs"
  shows "series_mean order (map Fin qs) = Fin (sum_list qs / of_nat (length qs))"
proof -
  from assms(2) have p: "mset (positions (order (length qs))) = mset [0..<length qs]"
    and e: "exact_sum (order (length qs)) qs"
    and d: "round64 (sum_list qs / of_nat (length qs)) = Fin (sum_list qs / of_nat (length qs))"
    by (simp_all add: exact_mean_def)
  have "series_mean order (map Fin qs)
        = fdiv (float_sum (order (length (map Fin qs))) (map Fin qs)) (length (map Fin qs))"
    using assms(1) by (intro series_mean_present) auto
  also have "\<dots> = fdiv (Fin (sum_list qs)) (length qs)"
    by (simp add: float_sum_exact[OF e] exact_value_sum[OF p])
  also have "\<dots> = Fin (sum_list qs / of_nat (length qs))"
    using assms(1) d by (simp add: fdiv_def)
  finally show ?thesis .
qed

lemma abs_value_NaN: "abs_value d x = NaN \<longleftrightarrow> x = NaN"
  by (simp add: abs_value_def fabs_NaN)

lemma fle_abs_value: "x \<noteq> NaN \<Longrightarrow> fle x (abs_value d x)"
  by (simp add: abs_value_def fle_fabs fle_refl)

lemma abs_value_sign:
  "x \<noteq> NaN \<Longrightarrow> fle (Fin 0) (abs_value d x) \<or> (d = Int64 \<and> x = Fin (- (2 ^ 63)))"
  by (simp add: abs_value_def fle_fabs)

section \<open>Facts about the pipeline\<close>

lemma key_of_prep: "key_of (prep conv d r) = key_of r"
  by (simp add: key_of_def prep_def)

lemma prep_ValueG: "float_of (prep conv d r ''ValueG'') = conv r"
  by (simp add: prep_def)

lemma prep_AbsValueG:
  "float_of (prep conv d r ''AbsValueG'') = abs_value d (conv r)"
  by (simp add: prep_def)

lemma grouped_keys_rows:
  "map (\<lambda>i. key_of (rs ! i)) (grouped_labels conv c rs)
   = map key_of (filter (\<lambda>r. valid_sample conv c r \<and> key_present (key_of r)) rs)"
proof -
  have "map (\<lambda>i. key_of (rs ! i)) (grouped_labels conv c rs)
        = map key_of (map ((!) rs) (grouped_labels conv c rs))" by simp
  also have "\<dots> = map key_of (filter (\<lambda>r. valid_sample conv c r \<and> key_present (key_of r)) rs)"
    unfolding grouped_labels_def
    by (simp only: nth_filter_upt[where P="\<lambda>r. valid_sample conv c r \<and> key_present (key_of r)"])
  finally show ?thesis .
qed

lemma group_values_rows:
  "group_values conv c rs k
   = map conv
       (filter (\<lambda>r. (valid_sample conv c r \<and> key_present (key_of r)) \<and> key_of r = k) rs)"
proof -
  have m: "members conv c rs k
     = filter (\<lambda>i. (valid_sample conv c (rs ! i) \<and> key_present (key_of (rs ! i))) \<and> key_of (rs ! i) = k)
         [0..<length rs]"
    by (simp add: members_def grouped_labels_def conj_commute)
  have "group_values conv c rs k
        = map conv (map ((!) rs) (members conv c rs k))"
    by (simp add: group_values_def)
  also have "\<dots> = map conv
       (filter (\<lambda>r. (valid_sample conv c r \<and> key_present (key_of r)) \<and> key_of r = k) rs)"
    unfolding m
    by (simp only: nth_filter_upt[where
          P="\<lambda>r. (valid_sample conv c r \<and> key_present (key_of r)) \<and> key_of r = k"])
  finally show ?thesis .
qed

lemma group_keys_mset:
  assumes "mset rs' = mset rs"
  shows "group_keys conv c rs' = group_keys conv c rs"
proof -
  from assms have "set rs' = set rs" by (rule mset_eq_setD)
  then show ?thesis
    unfolding group_keys_def grouped_keys_rows
    by (intro sort_key_remdups_cong inj_key_rank) simp
qed

lemma group_values_mset:
  assumes "mset rs' = mset rs"
  shows "mset (group_values conv c rs' k) = mset (group_values conv c rs k)"
  unfolding group_values_rows using assms by simp

lemma set_grouped_labels:
  "set (grouped_labels conv c rs)
   = {i. i < length rs \<and> valid_sample conv c (rs ! i) \<and> key_present (key_of (rs ! i))}"
  by (auto simp: grouped_labels_def)

lemma set_members:
  "set (members conv c rs k) = {i \<in> set (grouped_labels conv c rs). key_of (rs ! i) = k}"
  by (auto simp: members_def)

lemma set_group_keys:
  "set (group_keys conv c rs) = (\<lambda>i. key_of (rs ! i)) ` set (grouped_labels conv c rs)"
  by (simp add: group_keys_def)

lemma distinct_group_keys: "distinct (group_keys conv c rs)"
  by (simp add: group_keys_def)

lemma distinct_members: "distinct (members conv c rs k)"
  by (simp add: members_def grouped_labels_def)

lemma members_nonempty: "k \<in> set (group_keys conv c rs) \<Longrightarrow> members conv c rs k \<noteq> []"
proof -
  assume "k \<in> set (group_keys conv c rs)"
  then obtain i where "i \<in> set (grouped_labels conv c rs)" "key_of (rs ! i) = k"
    by (auto simp: set_group_keys)
  then have "i \<in> set (members conv c rs k)" by (simp add: set_members)
  then show ?thesis by auto
qed

lemma in_some_group:
  "(\<exists>(k, js) \<in> set (map (\<lambda>k. (k, members conv c rs k)) (group_keys conv c rs)). i \<in> set js)
   \<longleftrightarrow> i \<in> set (grouped_labels conv c rs)"
  by (auto simp: set_members set_group_keys)

lemma concat_members:
  "set (concat (map (members conv c rs) (group_keys conv c rs))) = set (grouped_labels conv c rs)"
  by (auto simp: set_members set_group_keys)

lemma distinct_concat_members:
  "distinct (concat (map (members conv c rs) (group_keys conv c rs)))"
proof (rule distinct_concat)
  have "inj_on (members conv c rs) (set (group_keys conv c rs))"
  proof (rule inj_onI)
    fix k k' assume k: "k \<in> set (group_keys conv c rs)" and "k' \<in> set (group_keys conv c rs)"
      and e: "members conv c rs k = members conv c rs k'"
    from members_nonempty[OF k] obtain i where i: "i \<in> set (members conv c rs k)"
      by (cases "members conv c rs k") auto
    with e have "i \<in> set (members conv c rs k')" by simp
    with i show "k = k'" by (simp add: set_members)
  qed
  then show "distinct (map (members conv c rs) (group_keys conv c rs))"
    by (simp add: distinct_map distinct_group_keys)
next
  fix ys assume "ys \<in> set (map (members conv c rs) (group_keys conv c rs))"
  then show "distinct ys" by (auto simp: distinct_members)
next
  fix ys zs
  assume "ys \<in> set (map (members conv c rs) (group_keys conv c rs))"
    "zs \<in> set (map (members conv c rs) (group_keys conv c rs))" "ys \<noteq> zs"
  then show "set ys \<inter> set zs = {}" by (auto simp: set_members)
qed

lemma map_of_graph:
  "map_of (map (\<lambda>k. (k, f k)) ks) k = Some v \<longleftrightarrow> k \<in> set ks \<and> v = f k"
  by (induction ks) auto

lemma group_values_not_NaN: "x \<in> set (group_values conv c rs k) \<Longrightarrow> x \<noteq> NaN"
  by (auto simp: group_values_def set_members set_grouped_labels valid_sample_def)

lemma group_values_nonempty:
  "k \<in> set (group_keys conv c rs) \<Longrightarrow> group_values conv c rs k \<noteq> []"
  by (simp add: group_values_def members_nonempty)

lemma filter_zip_upt:
  "map (\<lambda>(i, r). f r) (filter (\<lambda>(i, r). P r) (zip [0..<length rs] rs)) = map f (filter P rs)"
proof -
  have "map (\<lambda>(i, r). f r) (filter (\<lambda>(i, r). P r) (zip [0..<length rs] rs))
        = map f (map ((!) rs) (filter (\<lambda>i. P (rs ! i)) [0..<length rs]))"
    unfolding zip_upt_nth by (simp add: filter_map comp_def)
  also have "\<dots> = map f (filter P rs)"
    by (simp only: nth_filter_upt[where P=P])
  finally show ?thesis .
qed

lemma prepare_rows:
  assumes "prepare lib \<lparr>columns = cols, dtypes = dts, rows = zip [0..<length rs] rs\<rparr> = Inr df"
  shows "cols \<noteq> []" and "''ValueG'' \<in> set cols"
    and "rows df = map (\<lambda>i. (i, prep (converted lib (hd cols) dts rs) (value_dtype lib (hd cols) dts rs) (rs ! i)))
                     (filter (\<lambda>i. valid_sample (converted lib (hd cols) dts rs) (hd cols) (rs ! i)) [0..<length rs])"
    and "set (columns df) = insert ''AbsValueG'' (set cols)"
    and "dtypes df ''ValueG'' = value_dtype lib (hd cols) dts rs"
proof -
  from assms show c: "cols \<noteq> []"
    by (auto simp: prepare_def select_tag_def split: list.splits)
  from assms show v: "''ValueG'' \<in> set cols"
    by (auto simp: prepare_def select_tag_def convert_ValueG_def split: list.splits if_splits)
  from c obtain c0 cs where cols: "cols = c0 # cs" by (cases cols) auto
  let ?kept = "filter (\<lambda>(i, r). r c0 = Num (Fin (- 900))) (zip [0..<length rs] rs)"
  have d: "numeric_dtype lib (dts ''ValueG'') (map (\<lambda>(i, r). r ''ValueG'') ?kept)
           = value_dtype lib (hd cols) dts rs"
    unfolding value_dtype_def cols
    by (simp only: list.sel filter_zip_upt[where f="\<lambda>r. r ''ValueG''"
          and P="\<lambda>r. r c0 = Num (Fin (- 900))"])
  from assms cols v have df: "df = add_abs (drop_na
      \<lparr>columns = cols, dtypes = dts(''ValueG'' := value_dtype lib (hd cols) dts rs),
       rows = map (\<lambda>(i, r). (i, r(''ValueG'' := Num (converted lib (hd cols) dts rs r)))) ?kept\<rparr>)"
    unfolding d[symmetric] converted_def
    by (auto simp: prepare_def select_tag_def convert_ValueG_def Let_def)
  show "set (columns df) = insert ''AbsValueG'' (set cols)"
    unfolding df by (auto simp: add_abs_def drop_na_def)
  show "dtypes df ''ValueG'' = value_dtype lib (hd cols) dts rs"
    unfolding df by (simp add: add_abs_def drop_na_def)
  show "rows df = map (\<lambda>i. (i, prep (converted lib (hd cols) dts rs) (value_dtype lib (hd cols) dts rs) (rs ! i)))
                     (filter (\<lambda>i. valid_sample (converted lib (hd cols) dts rs) (hd cols) (rs ! i)) [0..<length rs])"
    unfolding df zip_upt_nth
    by (simp add: cols add_abs_def drop_na_def filter_map comp_def valid_sample_def prep_def
         conj_commute cong: conj_cong)
qed

lemma prepare_total:
  assumes "cols \<noteq> []" and "''ValueG'' \<in> set cols"
  shows "\<exists>df. prepare lib \<lparr>columns = cols, dtypes = dts, rows = xs\<rparr> = Inr df"
  using assms by (cases cols) (auto simp: prepare_def select_tag_def convert_ValueG_def Let_def)

lemma prepare_fails:
  "cols = [] \<Longrightarrow> prepare lib \<lparr>columns = cols, dtypes = dts, rows = xs\<rparr> = Inl IndexError"
  "cols \<noteq> [] \<Longrightarrow> ''ValueG'' \<notin> set cols \<Longrightarrow>
     prepare lib \<lparr>columns = cols, dtypes = dts, rows = xs\<rparr> = Inl (KeyError ''ValueG'')"
  by (cases cols; simp add: prepare_def select_tag_def convert_ValueG_def Let_def)+

lemma groupby_prepared:
  assumes "prepare lib \<lparr>columns = cols, dtypes = dts, rows = zip [0..<length rs] rs\<rparr> = Inr df"
  shows "groupby df =
     (if ''Trial'' \<notin> set cols then Inl (KeyError ''Trial'')
      else if ''TrialNo'' \<notin> set cols then Inl (KeyError ''TrialNo'')
      else Inr (map (\<lambda>k. (k, map (\<lambda>i. (i, prep (converted lib (hd cols) dts rs) (value_dtype lib (hd cols) dts rs) (rs ! i)))
                              (members (converted lib (hd cols) dts rs) (hd cols) rs k)))
                  (group_keys (converted lib (hd cols) dts rs) (hd cols) rs)))"
proof -
  note r = prepare_rows(3)[OF assms] and c = prepare_rows(4)[OF assms]
  have f: "filter (\<lambda>(i, r). key_present (key_of r)) (rows df) =
           map (\<lambda>i. (i, prep (converted lib (hd cols) dts rs) (value_dtype lib (hd cols) dts rs) (rs ! i)))
             (grouped_labels (converted lib (hd cols) dts rs) (hd cols) rs)"
    unfolding r grouped_labels_def by (simp add: filter_map comp_def key_of_prep)
  show ?thesis
    unfolding groupby_def c f Let_def
    by (simp add: filter_map comp_def key_of_prep group_keys_def members_def)
qed

lemma group_labels_prepared:
  "group_labels (map (\<lambda>k. (k, map (\<lambda>i. (i, prep conv d (rs ! i))) (members conv c rs k))) ks)
   = map (\<lambda>k. (k, members conv c rs k)) ks"
  by (simp add: group_labels_def comp_def)

lemma group_max_ValueG:
  "group_max ''ValueG'' (map (\<lambda>k. (k, map (\<lambda>i. (i, prep conv d (rs ! i))) (members conv c rs k))) ks)
   = map (\<lambda>k. (k, series_max (group_values conv c rs k))) ks"
  by (simp add: group_max_def comp_def prep_ValueG group_values_def)

lemma group_max_AbsValueG:
  "group_max ''AbsValueG'' (map (\<lambda>k. (k, map (\<lambda>i. (i, prep conv d (rs ! i))) (members conv c rs k))) ks)
   = map (\<lambda>k. (k, series_max (map (abs_value d) (group_values conv c rs k)))) ks"
  by (simp add: group_max_def comp_def prep_AbsValueG group_values_def)

lemma frame_table:
  assumes "fs path = Some (Table cols dts rs)"
  shows "frame lib fs path = prepare lib \<lparr>columns = cols, dtypes = dts, rows = zip [0..<length rs] rs\<rparr>"
  using assms by (simp add: frame_def read_csv_def)

text \<open>The dtype of the value column in the frame that is grouped.\<close>

lemma frame_dtype:
  assumes "fs path = Some (Table cols dts rs)" and "frame lib fs path = Inr df"
  shows "dtypes df ''ValueG'' = value_dtype lib (hd cols) dts rs"
  using assms(2) unfolding frame_table[of fs path, OF assms(1)] by (rule prepare_rows(5))

lemma analyze_body_table:
  assumes "fs path = Some (Table cols dts rs)"
  shows "analyze_body lib fs path =
     (if cols = [] then Inl IndexError
      else if ''ValueG'' \<notin> set cols then Inl (KeyError ''ValueG'')
      else if ''Trial'' \<notin> set cols then Inl (KeyError ''Trial'')
      else if ''TrialNo'' \<notin> set cols then Inl (KeyError ''TrialNo'')
      else Inr (table_analysis lib (hd cols) dts rs))"
proof -
  let ?df0 = "\<lparr>columns = cols, dtypes = dts, rows = zip [0..<length rs] rs\<rparr>"
  note fr = frame_table[of fs path, OF assms]
  show ?thesis
  proof (cases "cols \<noteq> [] \<and> ''ValueG'' \<in> set cols")
    case False
    then show ?thesis
      using prepare_fails[of cols lib dts "zip [0..<length rs] rs"]
      by (auto simp: analyze_body_def fr)
  next
    case True
    then obtain df where df: "prepare lib ?df0 = Inr df"
      using prepare_total by blast
    show ?thesis
      using True
      by (simp add: analyze_body_def fr df summarize_def groupby_prepared[OF df]
            group_max_ValueG group_max_AbsValueG table_analysis_def Let_def)
  qed
qed

lemma trial_groups_table:
  assumes "fs path = Some (Table cols dts rs)"
  shows "trial_groups lib fs path =
     (if cols = [] then Inl IndexError
      else if ''ValueG'' \<notin> set cols then Inl (KeyError ''ValueG'')
      else if ''Trial'' \<notin> set cols then Inl (KeyError ''Trial'')
      else if ''TrialNo'' \<notin> set cols then Inl (KeyError ''TrialNo'')
      else Inr (map (\<lambda>k. (k, members (converted lib (hd cols) dts rs) (hd cols) rs k))
                  (group_keys (converted lib (hd cols) dts rs) (hd cols) rs)))"
proof -
  let ?df0 = "\<lparr>columns = cols, dtypes = dts, rows = zip [0..<length rs] rs\<rparr>"
  note fr = frame_table[of fs path, OF assms]
  show ?thesis
  proof (cases "cols \<noteq> [] \<and> ''ValueG'' \<in> set cols")
    case False
    then show ?thesis
      using prepare_fails[of cols lib dts "zip [0..<length rs] rs"]
      by (auto simp: trial_groups_def fr)
  next
    case True
    then obtain df where df: "prepare lib ?df0 = Inr df"
      using prepare_total by blast
    show ?thesis
      using True
      by (simp add: trial_groups_def fr df groupby_prepared[OF df] group_labels_prepared)
  qed
qed

lemma analyze_body_Inr:
  assumes "analyze_body lib fs path = Inr a"
  obtains cols dts rs where "fs path = Some (Table cols dts rs)" and "cols \<noteq> []"
    and "''ValueG'' \<in> set cols" and "''Trial'' \<in> set cols" and "''TrialNo'' \<in> set cols"
    and "a = table_analysis lib (hd cols) dts rs"
proof (cases "fs path")
  case None
  with assms show ?thesis by (simp add: analyze_body_def frame_def read_csv_def)
next
  case (Some f)
  show ?thesis
  proof (cases f)
    case Unreadable
    with Some assms show ?thesis by (simp add: analyze_body_def frame_def read_csv_def)
  next
    case Unparsable
    with Some assms show ?thesis by (simp add: analyze_body_def frame_def read_csv_def)
  next
    case (Table cols dts rs)
    with Some have t: "fs path = Some (Table cols dts rs)" by simp
    from assms show ?thesis
      unfolding analyze_body_table[of fs path, OF t]
      by (intro that[OF t]) (auto split: if_splits)
  qed
qed

lemma returned_table:
  assumes "analyze_max_g_values lib fs path = Returned a"
  obtains cols dts rs where "fs path = Some (Table cols dts rs)" and "cols \<noteq> []"
    and "''ValueG'' \<in> set cols" and "''Trial'' \<in> set cols" and "''TrialNo'' \<in> set cols"
    and "a = table_analysis lib (hd cols) dts rs"
proof -
  from assms have "analyze_body lib fs path = Inr a"
    by (auto simp: analyze_max_g_values_def split: sum.splits exn.splits)
  then show ?thesis by (rule analyze_body_Inr) (rule that)
qed

lemma trial_groups_Inr:
  assumes "trial_groups lib fs path = Inr gl"
  obtains cols dts rs where "fs path = Some (Table cols dts rs)" and "cols \<noteq> []"
    and "''ValueG'' \<in> set cols" and "''Trial'' \<in> set cols" and "''TrialNo'' \<in> set cols"
    and "gl = map (\<lambda>k. (k, members (converted lib (hd cols) dts rs) (hd cols) rs k))
                (group_keys (converted lib (hd cols) dts rs) (hd cols) rs)"
proof (cases "fs path")
  case None
  with assms show ?thesis by (simp add: trial_groups_def frame_def read_csv_def)
next
  case (Some f)
  show ?thesis
  proof (cases f)
    case Unreadable
    with Some assms show ?thesis by (simp add: trial_groups_def frame_def read_csv_def)
  next
    case Unparsable
    with Some assms show ?thesis by (simp add: trial_groups_def frame_def read_csv_def)
  next
    case (Table cols dts rs)
    with Some have t: "fs path = Some (Table cols dts rs)" by simp
    from assms show ?thesis
      unfolding trial_groups_table[of fs path, OF t]
      by (intro that[OF t]) (auto split: if_splits)
  qed
qed

lemma table_analysis_empty:
  "group_keys (converted lib c dts rs) c rs = [] \<Longrightarrow>
   table_analysis lib c dts rs =
     \<lparr>max_values = [], mean_of_maxes = NaN, abs_max_values = [], mean_of_abs_maxes = NaN\<rparr>"
  by (simp add: table_analysis_def series_mean_def)

lemma table_analysis_keys:
  "map fst (max_values (table_analysis lib c dts rs)) = group_keys (converted lib c dts rs) c rs"
  "map fst (abs_max_values (table_analysis lib c dts rs)) = group_keys (converted lib c dts rs) c rs"
  by (simp_all add: table_analysis_def comp_def Let_def)

lemma table_analysis_sel:
  "max_values (table_analysis lib c dts rs)
   = map (\<lambda>k. (k, series_max (group_values (converted lib c dts rs) c rs k))) (group_keys (converted lib c dts rs) c rs)"
  "abs_max_values (table_analysis lib c dts rs)
   = map (\<lambda>k. (k, series_max (map (abs_value (value_dtype lib c dts rs))
                                 (group_values (converted lib c dts rs) c rs k))))
       (group_keys (converted lib c dts rs) c rs)"
  "mean_of_maxes (table_analysis lib c dts rs)
   = series_mean (sum_order lib) (map snd (max_values (table_analysis lib c dts rs)))"
  "mean_of_abs_maxes (table_analysis lib c dts rs)
   = series_mean (sum_order lib) (map snd (abs_max_values (table_analysis lib c dts rs)))"
  by (simp_all add: table_analysis_def Let_def)

lemma value_dtype_mset:
  assumes "mset rs' = mset rs"
  shows "value_dtype lib c dts rs' = value_dtype lib c dts rs"
proof -
  from assms have "set rs' = set rs" by (rule mset_eq_setD)
  then show ?thesis
    by (simp add: value_dtype_def numeric_dtype_def)
qed

lemma converted_mset:
  assumes "mset rs' = mset rs"
  shows "converted lib c dts rs' = converted lib c dts rs"
  by (rule ext) (simp add: converted_def value_dtype_mset[OF assms])

lemma table_analysis_mset:
  assumes "mset rs' = mset rs"
  shows "table_analysis lib c dts rs' = table_analysis lib c dts rs"
proof -
  let ?conv = "converted lib c dts rs"
  have v: "series_max (group_values ?conv c rs' k) = series_max (group_values ?conv c rs k)" for k
    by (rule series_max_mset) (rule group_values_mset[OF assms])
  have "mset (map (abs_value d) (group_values ?conv c rs' k))
        = mset (map (abs_value d) (group_values ?conv c rs k))" for k d
    using group_values_mset[OF assms, where conv="?conv" and c=c and k=k] by simp
  then have w: "series_max (map (abs_value d) (group_values ?conv c rs' k))
              = series_max (map (abs_value d) (group_values ?conv c rs k))" for k d
    by (rule series_max_mset)
  show ?thesis
    by (simp add: table_analysis_def group_keys_mset[OF assms] value_dtype_mset[OF assms]
          converted_mset[OF assms] v w)
qed

lemma series_max_abs_greatest:
  assumes "vs \<noteq> []" and "\<forall>x\<in>set vs. x \<noteq> NaN"
  shows "series_max (map (abs_value d) vs) \<in> abs_value d ` set vs"
    and "\<forall>x\<in>set vs. fle (abs_value d x) (series_max (map (abs_value d) vs))"
proof -
  have n: "map (abs_value d) vs \<noteq> []" and a: "\<forall>y\<in>set (map (abs_value d) vs). y \<noteq> NaN"
    using assms by (auto simp: abs_value_NaN)
  from series_max_greatest(1)[OF n a]
  show "series_max (map (abs_value d) vs) \<in> abs_value d ` set vs" by simp
  from series_max_greatest(2)[OF n a]
  show "\<forall>x\<in>set vs. fle (abs_value d x) (series_max (map (abs_value d) vs))" by simp
qed

lemma extrema_bounds:
  assumes "vs \<noteq> []" and "\<forall>x\<in>set vs. x \<noteq> NaN"
  shows "fle (series_max vs) (series_max (map (abs_value d) vs))"
    and "fle (Fin 0) (series_max (map (abs_value d) vs))
         \<or> (series_max vs = Fin (- (2 ^ 63)) \<and> series_max (map (abs_value d) vs) = Fin (- (2 ^ 63)))"
proof -
  let ?v = "series_max vs" and ?w = "series_max (map (abs_value d) vs)"
  from series_max_greatest(1)[OF assms] have v: "?v \<in> set vs" .
  with assms(2) have "fle ?v (abs_value d ?v)" by (simp add: fle_abs_value)
  moreover from series_max_abs_greatest(2)[OF assms] v have "fle (abs_value d ?v) ?w" by blast
  ultimately show vw: "fle ?v ?w" by (rule fle_trans)
  from series_max_abs_greatest(1)[OF assms] obtain y where y: "y \<in> set vs" "?w = abs_value d y"
    by auto
  show "fle (Fin 0) ?w \<or> (?v = Fin (- (2 ^ 63)) \<and> ?w = Fin (- (2 ^ 63)))"
  proof (cases "fle (Fin 0) ?w")
    case True
    then show ?thesis by simp
  next
    case False
    with y assms(2) abs_value_sign[of y d] have yl: "y = Fin (- (2 ^ 63))" and d: "d = Int64"
      by auto
    then have w: "?w = Fin (- (2 ^ 63))" using y(2) by (simp add: abs_value_def)
    from series_max_greatest(2)[OF assms] y(1) yl have "fle (Fin (- (2 ^ 63))) ?v" by auto
    moreover from vw w have "fle ?v (Fin (- (2 ^ 63)))" by simp
    ultimately have "?v = Fin (- (2 ^ 63))" by (rule fle_antisym[symmetric])
    with w show ?thesis by simp
  qed
qed

text \<open>The definitions and facts that evaluate the analysis on a concrete file.\<close>

lemma rne_ties:
  "rne (12610078956637389 / 2) = 6305039478318694"
  "rne (9007199254740993 / 2) = 4503599627370496"
  by code_simp+

lemmas eval_defs = analyze_max_g_values_def analyze_body_def frame_def read_csv_def header_def
  prepare_def select_tag_def convert_ValueG_def drop_na_def add_abs_def groupby_def group_max_def
  series_max_def series_mean_def max_step_def mk_row_def sample_conv_def to_numeric_def key_of_def
  key_present_def key_rank_def summarize_def main_def trial_groups_def group_labels_def
  sample_lib_def with_values_def numeric_dtype_def Let_def abs_value_def fdiv_def round64_eval rne_ties

lemma scenario_groups:
  "trial_groups sample_lib scenario ''run.csv'' =
     Inr [((Txt ''A'', Num (Fin 1)), [0, 1]), ((Txt ''A'', Num (Fin 2)), [2])]"
  by (simp add: eval_defs scenario_def scenario_rows_def upt_rec)

lemma scenario_returned:
  "analyze_max_g_values sample_lib scenario ''run.csv'' = Returned scenario_result"
  by (simp add: eval_defs scenario_def scenario_rows_def scenario_result_def upt_rec)

section \<open>Paths without a readable file\<close>

text \<open>
  C5 claims that every path that does not resolve to a readable file fails with the
  not-found error. Only a path that names nothing does: a path that names a directory
  makes \<^verbatim>\<open>read_csv\<close> raise another error, which the second handler reports as a
  processing error. Nothing is returned and no report is written in either case.
\<close>

theorem unreadable_path_counterexample:
  "a_directory ''logs'' = Some Unreadable
   \<and> analyze_max_g_values sample_lib a_directory ''logs'' = Failed (Processing OSError)
   \<and> analyze_max_g_values sample_lib a_directory ''logs'' \<noteq> Failed (NotFound ''logs'')
   \<and> main sample_lib a_directory ''logs'' = None"
  by (simp add: eval_defs a_directory_def)

text \<open>
  C5 as the code has it: a path that names nothing makes the analysis print the
  not-found message, a path that names something that cannot be opened and read makes
  it print the processing message; in both cases it returns no result and
  \<^verbatim>\<open>main\<close> writes no report file.
\<close>

theorem missing_file_no_output:
  "(fs path = None \<longrightarrow>
      analyze_max_g_values lib fs path = Failed (NotFound path) \<and> main lib fs path = None)
   \<and> (fs path = Some Unreadable \<longrightarrow>
      analyze_max_g_values lib fs path = Failed (Processing OSError) \<and> main lib fs path = None)"
  by (simp add: main_def analyze_max_g_values_def analyze_body_def frame_def read_csv_def)

theorem missing_file_no_output_witness:
  "(Map.empty :: filesystem) ''gone.csv'' = None
   \<and> analyze_max_g_values sample_lib Map.empty ''gone.csv'' = Failed (NotFound ''gone.csv'')
   \<and> main sample_lib Map.empty ''gone.csv'' = None
   \<and> a_directory ''logs'' = Some Unreadable
   \<and> analyze_max_g_values sample_lib a_directory ''logs'' = Failed (Processing OSError)
   \<and> main sample_lib a_directory ''logs'' = None"
  using missing_file_no_output [of Map.empty "''gone.csv''" sample_lib]
    missing_file_no_output [of a_directory "''logs''" sample_lib]
  by (simp add: a_directory_def)

section \<open>No group at all\<close>

text \<open>
  C1 claims that a file without any group makes the analysis signal an error instead of
  a placeholder. The code has no such signal: for the file whose only row carries the
  tag -130 it returns two empty dictionaries and NaN for both means, and
  \<^verbatim>\<open>main\<close> writes the report.
\<close>

theorem no_groups_counterexample:
  "analyze_max_g_values sample_lib metadata_only ''a.csv'' =
     Returned \<lparr>max_values = [], mean_of_maxes = NaN, abs_max_values = [], mean_of_abs_maxes = NaN\<rparr>
   \<and> main sample_lib metadata_only ''a.csv'' =
     Some (''a.csv'', \<lparr>max_values = [], mean_of_maxes = NaN,
                        abs_max_values = [], mean_of_abs_maxes = NaN\<rparr>)"
  by (simp add: eval_defs metadata_only_def)

text \<open>
  C1 as the code has it: whenever the grouping yields no group, the analysis returns
  empty dictionaries and NaN for both means, without any failure, and \<^verbatim>\<open>main\<close>
  writes the report with these values.
\<close>

theorem no_groups_returns_nan:
  assumes "trial_groups lib fs path = Inr []"
  shows "analyze_max_g_values lib fs path =
           Returned \<lparr>max_values = [], mean_of_maxes = NaN,
                     abs_max_values = [], mean_of_abs_maxes = NaN\<rparr>
         \<and> main lib fs path =
           Some (path, \<lparr>max_values = [], mean_of_maxes = NaN,
                        abs_max_values = [], mean_of_abs_maxes = NaN\<rparr>)"
proof -
  from assms obtain cols dts rs where t: "fs path = Some (Table cols dts rs)" and c: "cols \<noteq> []"
    "''ValueG'' \<in> set cols" "''Trial'' \<in> set cols" "''TrialNo'' \<in> set cols"
    and k: "group_keys (converted lib (hd cols) dts rs) (hd cols) rs = []"
    by (rule trial_groups_Inr) auto
  show ?thesis
    by (simp add: main_def analyze_max_g_values_def analyze_body_table[of fs path, OF t] c
          table_analysis_empty[OF k])
qed

theorem no_groups_returns_nan_witness:
  "trial_groups sample_lib metadata_only ''a.csv'' = Inr []
   \<and> analyze_max_g_values sample_lib metadata_only ''a.csv'' =
     Returned \<lparr>max_values = [], mean_of_maxes = NaN, abs_max_values = [], mean_of_abs_maxes = NaN\<rparr>"
proof -
  have h: "trial_groups sample_lib metadata_only ''a.csv'' = Inr []"
    by (simp add: eval_defs metadata_only_def)
  from no_groups_returns_nan[of sample_lib metadata_only "''a.csv''", OF h] h show ?thesis by simp
qed

section \<open>Failures are reported\<close>

text \<open>
  C6: a readable file that lacks one of the columns \<^verbatim>\<open>ValueG\<close>, \<^verbatim>\<open>Trial\<close>,
  \<^verbatim>\<open>TrialNo\<close> makes the analysis print the processing message for the first lookup
  that fails and return no result, so that \<^verbatim>\<open>main\<close> writes nothing; and every
  exception of the body ends in a printed message, none leaves the function.
\<close>

theorem failures_reported:
  "(fs path = Some (Table cols dts rs) \<longrightarrow> \<not> {''ValueG'', ''Trial'', ''TrialNo''} \<subseteq> set cols \<longrightarrow>
      analyze_max_g_values lib fs path =
        Failed (Processing (if cols = [] then IndexError
                            else if ''ValueG'' \<notin> set cols then KeyError ''ValueG''
                            else if ''Trial'' \<notin> set cols then KeyError ''Trial''
                            else KeyError ''TrialNo''))
      \<and> main lib fs path = None)
   \<and> (analyze_body lib fs path = Inl e \<longrightarrow>
      (\<exists>m. analyze_max_g_values lib fs path = Failed m) \<and> main lib fs path = None)"
proof (intro conjI impI)
  assume t: "fs path = Some (Table cols dts rs)"
    and c: "\<not> {''ValueG'', ''Trial'', ''TrialNo''} \<subseteq> set cols"
  from c show "analyze_max_g_values lib fs path =
        Failed (Processing (if cols = [] then IndexError
                            else if ''ValueG'' \<notin> set cols then KeyError ''ValueG''
                            else if ''Trial'' \<notin> set cols then KeyError ''Trial''
                            else KeyError ''TrialNo''))"
    by (auto simp: analyze_max_g_values_def analyze_body_table[of fs path, OF t])
  then show "main lib fs path = None" by (simp add: main_def)
next
  assume e: "analyze_body lib fs path = Inl e"
  then show "\<exists>m. analyze_max_g_values lib fs path = Failed m"
    by (cases e) (simp_all add: analyze_max_g_values_def)
  then show "main lib fs path = None" by (auto simp: main_def)
qed

theorem failures_reported_witness:
  "no_value_column ''b.csv'' = Some (Table [''Tag'', ''Trial'', ''TrialNo''] (with_values Object) [])
   \<and> \<not> {''ValueG'', ''Trial'', ''TrialNo''} \<subseteq> set [''Tag'', ''Trial'', ''TrialNo'']
   \<and> analyze_body sample_lib no_value_column ''b.csv'' = Inl (KeyError ''ValueG'')
   \<and> analyze_max_g_values sample_lib no_value_column ''b.csv'' = Failed (Processing (KeyError ''ValueG''))
   \<and> main sample_lib no_value_column ''b.csv'' = None"
proof -
  have t: "no_value_column ''b.csv'' = Some (Table [''Tag'', ''Trial'', ''TrialNo''] (with_values Object) [])"
    by (simp add: no_value_column_def)
  have c: "\<not> {''ValueG'', ''Trial'', ''TrialNo''} \<subseteq> set [''Tag'', ''Trial'', ''TrialNo'']"
    by simp
  have e: "analyze_body sample_lib no_value_column ''b.csv'' = Inl (KeyError ''ValueG'')"
    by (simp add: eval_defs no_value_column_def)
  from failures_reported[of no_value_column "''b.csv''" "[''Tag'', ''Trial'', ''TrialNo'']"
        "with_values Object" "[]" sample_lib "KeyError ''ValueG''"] t c e
  show ?thesis by simp
qed

section \<open>Both dictionaries have the same keys\<close>

text \<open>
  C9: in every returned result the dictionary of the maxima and the dictionary of the
  absolute maxima have the same keys, in the same order, and so the same length.
\<close>

theorem same_groups_in_both:
  assumes "analyze_max_g_values lib fs path = Returned a"
  shows "map fst (max_values a) = map fst (abs_max_values a)
         \<and> dom (map_of (max_values a)) = dom (map_of (abs_max_values a))
         \<and> length (max_values a) = length (abs_max_values a)"
proof -
  from assms obtain cols dts rs where a: "a = table_analysis lib (hd cols) dts rs"
    by (rule returned_table)
  have k: "map fst (max_values a) = map fst (abs_max_values a)"
    by (simp add: a table_analysis_keys)
  from k have "set (map fst (max_values a)) = set (map fst (abs_max_values a))" by simp
  then have d: "dom (map_of (max_values a)) = dom (map_of (abs_max_values a))"
    by (simp add: dom_map_of_conv_image_fst)
  from k have "length (max_values a) = length (abs_max_values a)"
    by (rule map_eq_imp_length_eq)
  with k d show ?thesis by simp
qed

theorem same_groups_in_both_witness:
  "analyze_max_g_values sample_lib scenario ''run.csv'' = Returned scenario_result
   \<and> map fst (max_values scenario_result) = map fst (abs_max_values scenario_result)
   \<and> length (max_values scenario_result) = 2"
  using same_groups_in_both[of sample_lib scenario "''run.csv''" scenario_result, OF scenario_returned]
    scenario_returned
  by (simp add: scenario_result_def)

section \<open>The order of the rows\<close>

text \<open>
  C7: two tables with the same header and dtypes whose rows are permutations of each
  other give the same outcome: the same keys, the same two maxima for each key, the
  same means and the same number of groups.
\<close>

theorem row_order_irrelevant:
  assumes "mset rs' = mset rs"
    and "fs path = Some (Table cols dts rs)" and "fs' path = Some (Table cols dts rs')"
  shows "analyze_max_g_values lib fs' path = analyze_max_g_values lib fs path"
  by (simp add: analyze_max_g_values_def analyze_body_table[of fs path, OF assms(2)]
        analyze_body_table[of fs' path, OF assms(3)] table_analysis_mset[OF assms(1)])

theorem row_order_irrelevant_witness:
  "mset (rev scenario_rows) = mset scenario_rows
   \<and> scenario ''run.csv'' = Some (Table header (with_values Object) scenario_rows)
   \<and> scenario_reversed ''run.csv'' = Some (Table header (with_values Object) (rev scenario_rows))
   \<and> analyze_max_g_values sample_lib scenario_reversed ''run.csv'' = Returned scenario_result"
proof -
  have m: "mset (rev scenario_rows) = mset scenario_rows" by simp
  have t: "scenario ''run.csv'' = Some (Table header (with_values Object) scenario_rows)"
    by (simp add: scenario_def)
  have t': "scenario_reversed ''run.csv'' = Some (Table header (with_values Object) (rev scenario_rows))"
    by (simp add: scenario_reversed_def)
  from row_order_irrelevant[of "rev scenario_rows" scenario_rows scenario "''run.csv''" header
        "with_values Object" scenario_reversed sample_lib, OF m t t'] scenario_returned m t t'
  show ?thesis by simp
qed

section \<open>Which rows reach a group\<close>

text \<open>
  C2 claims that a row contributes to a group exactly when its tag is -900 and its
  value is a finite number. The code keeps every value that is not NaN, so the row with
  the value plus infinity forms the group (A, 1); and \<^verbatim>\<open>groupby\<close> leaves out a row
  with a missing key, so the row with the value 3.5 and no trial forms no group.
\<close>

theorem row_contributes_counterexample:
  "trial_groups sample_lib infinite_value ''inf.csv'' = Inr [((Txt ''A'', Num (Fin 1)), [0])]
   \<and> to_numeric sample_lib Float64 (Num PInf) = PInf
   \<and> trial_groups sample_lib missing_trial ''gap.csv'' = Inr []
   \<and> to_numeric sample_lib Float64 (Num (Fin (7 / 2))) = Fin (7 / 2)"
  by (simp add: eval_defs infinite_value_def missing_trial_def upt_rec)

text \<open>
  C2 as the code has it: the row with index label \<open>i\<close> belongs to some group exactly
  when its first cell equals -900, its \<^verbatim>\<open>ValueG\<close> converts to a number other than
  NaN (an infinity counts) and neither \<^verbatim>\<open>Trial\<close> nor \<^verbatim>\<open>TrialNo\<close> is missing.
  Every other row is in no group and so in no maximum and no mean.
\<close>

theorem row_contributes_iff:
  assumes "fs path = Some (Table cols dts rs)" and "trial_groups lib fs path = Inr gl"
    and "i < length rs"
  shows "(\<exists>(k, js) \<in> set gl. i \<in> set js)
         \<longleftrightarrow> (rs ! i) (hd cols) = Num (Fin (- 900))
             \<and> converted lib (hd cols) dts rs (rs ! i) \<noteq> NaN
             \<and> key_present (key_of (rs ! i))"
proof -
  from assms(2) obtain cols' dts' rs' where t: "fs path = Some (Table cols' dts' rs')"
    and gl: "gl = map (\<lambda>k. (k, members (converted lib (hd cols') dts' rs') (hd cols') rs' k))
                    (group_keys (converted lib (hd cols') dts' rs') (hd cols') rs')"
    by (rule trial_groups_Inr)
  from t assms(1) have "cols' = cols" "dts' = dts" "rs' = rs" by simp_all
  with gl have "(\<exists>(k, js) \<in> set gl. i \<in> set js)
      \<longleftrightarrow> i \<in> set (grouped_labels (converted lib (hd cols) dts rs) (hd cols) rs)"
    by (simp only: in_some_group)
  with assms(3) show ?thesis
    by (simp add: set_grouped_labels valid_sample_def)
qed

theorem row_contributes_iff_witness:
  "scenario ''run.csv'' = Some (Table header (with_values Object) scenario_rows)
   \<and> trial_groups sample_lib scenario ''run.csv'' =
       Inr [((Txt ''A'', Num (Fin 1)), [0, 1]), ((Txt ''A'', Num (Fin 2)), [2])]
   \<and> (1::nat) < length scenario_rows
   \<and> (scenario_rows ! 1) (hd header) = Num (Fin (- 900))
   \<and> converted sample_lib (hd header) (with_values Object) scenario_rows (scenario_rows ! 1) \<noteq> NaN
   \<and> key_present (key_of (scenario_rows ! 1))"
proof -
  have t: "scenario ''run.csv'' = Some (Table header (with_values Object) scenario_rows)"
    by (simp add: scenario_def)
  have l: "(1::nat) < length scenario_rows" by (simp add: scenario_rows_def)
  from row_contributes_iff[of scenario "''run.csv''" header "with_values Object" scenario_rows
        sample_lib "[((Txt ''A'', Num (Fin 1)), [0, 1]), ((Txt ''A'', Num (Fin 2)), [2])]" 1,
        OF t scenario_groups l] t scenario_groups l
  show ?thesis by simp
qed

section \<open>The groups partition the grouped rows\<close>

text \<open>
  C8 claims that every valid sample is in exactly one group. A row with tag -900 and the
  value 4.0 whose \<^verbatim>\<open>TrialNo\<close> is missing is in none: \<^verbatim>\<open>groupby\<close> drops it.
\<close>

theorem groups_partition_counterexample:
  "trial_groups sample_lib missing_trial_no ''gap2.csv'' = Inr [((Txt ''A'', Num (Fin 1)), [0])]
   \<and> mk_row (Num (Fin (- 900))) (Txt ''A'') (Num NaN) (Num (Fin 4)) ''Tag'' = Num (Fin (- 900))
   \<and> to_numeric sample_lib Float64
       (mk_row (Num (Fin (- 900))) (Txt ''A'') (Num NaN) (Num (Fin 4)) ''ValueG'') = Fin 4"
  by (simp add: eval_defs missing_trial_no_def upt_rec)

text \<open>
  C8 as the code has it: the groups have distinct keys, no index label occurs twice in
  them, together they hold exactly the rows with tag -900, a value other than NaN and
  both keys present, no group is empty, and every row lies in the group of its own
  (Trial, TrialNo) pair.
\<close>

theorem groups_partition:
  assumes "fs path = Some (Table cols dts rs)" and "trial_groups lib fs path = Inr gl"
  shows "distinct (map fst gl)
         \<and> distinct (concat (map snd gl))
         \<and> set (concat (map snd gl))
             = {i. i < length rs \<and> (rs ! i) (hd cols) = Num (Fin (- 900))
                    \<and> converted lib (hd cols) dts rs (rs ! i) \<noteq> NaN
                    \<and> key_present (key_of (rs ! i))}
         \<and> (\<forall>(k, js) \<in> set gl. js \<noteq> [] \<and> (\<forall>i \<in> set js. key_of (rs ! i) = k))"
proof -
  let ?conv = "converted lib (hd cols) dts rs"
  from assms(2) obtain cols' dts' rs' where t: "fs path = Some (Table cols' dts' rs')"
    and gl': "gl = map (\<lambda>k. (k, members (converted lib (hd cols') dts' rs') (hd cols') rs' k))
                     (group_keys (converted lib (hd cols') dts' rs') (hd cols') rs')"
    by (rule trial_groups_Inr)
  from t assms(1) have "cols' = cols" "dts' = dts" "rs' = rs" by simp_all
  with gl' have gl: "gl = map (\<lambda>k. (k, members ?conv (hd cols) rs k)) (group_keys ?conv (hd cols) rs)"
    by simp
  have f: "map fst gl = group_keys ?conv (hd cols) rs"
    and s: "map snd gl = map (members ?conv (hd cols) rs) (group_keys ?conv (hd cols) rs)"
    by (simp_all add: gl comp_def)
  have 1: "distinct (map fst gl)" by (simp add: f distinct_group_keys)
  have 2: "distinct (concat (map snd gl))" unfolding s by (rule distinct_concat_members)
  have 3: "set (concat (map snd gl))
             = {i. i < length rs \<and> (rs ! i) (hd cols) = Num (Fin (- 900))
                    \<and> ?conv (rs ! i) \<noteq> NaN
                    \<and> key_present (key_of (rs ! i))}"
    unfolding s concat_members set_grouped_labels by (simp add: valid_sample_def)
  have 4: "\<forall>(k, js) \<in> set gl. js \<noteq> [] \<and> (\<forall>i \<in> set js. key_of (rs ! i) = k)"
    by (auto simp: gl set_members dest: members_nonempty)
  from 1 2 3 4 show ?thesis by blast
qed

theorem groups_partition_witness:
  "scenario ''run.csv'' = Some (Table header (with_values Object) scenario_rows)
   \<and> trial_groups sample_lib scenario ''run.csv'' =
       Inr [((Txt ''A'', Num (Fin 1)), [0, 1]), ((Txt ''A'', Num (Fin 2)), [2])]
   \<and> {i. i < length scenario_rows \<and> (scenario_rows ! i) (hd header) = Num (Fin (- 900))
            \<and> converted sample_lib (hd header) (with_values Object) scenario_rows (scenario_rows ! i)
                \<noteq> NaN
            \<and> key_present (key_of (scenario_rows ! i))} = {0, 1, 2}"
proof -
  have t: "scenario ''run.csv'' = Some (Table header (with_values Object) scenario_rows)"
    by (simp add: scenario_def)
  from groups_partition[of scenario "''run.csv''" header "with_values Object" scenario_rows sample_lib
        "[((Txt ''A'', Num (Fin 1)), [0, 1]), ((Txt ''A'', Num (Fin 2)), [2])]",
        OF t scenario_groups]
  have "{0, 1, 2} = {i. i < length scenario_rows \<and> (scenario_rows ! i) (hd header) = Num (Fin (- 900))
            \<and> converted sample_lib (hd header) (with_values Object) scenario_rows (scenario_rows ! i)
                \<noteq> NaN
            \<and> key_present (key_of (scenario_rows ! i))}"
    by (simp add: insert_commute)
  with t scenario_groups show ?thesis by simp
qed

section \<open>The extrema of a group\<close>




section \<open>The means\<close>

text \<open>
  C4 claims that each returned mean equals the arithmetic mean of the maxima. The code
  computes the mean in float64: the two maxima \<open>2 ^ 1023\<close> have the arithmetic mean
  \<open>2 ^ 1023\<close>, but their sum overflows and the returned mean is infinite; the maxima
  \<open>2 ^ 53\<close> and 1 have the arithmetic mean \<open>2 ^ 52 + 1 / 2\<close>, but their sum rounds to
  \<open>2 ^ 53\<close> and the returned mean is \<open>2 ^ 52\<close>.
\<close>

theorem mean_of_extrema_counterexample:
  "analyze_max_g_values sample_lib near_overflow ''big.csv'' =
     Returned \<lparr>max_values = [((Txt ''A'', Num (Fin 1)), Fin (2 ^ 1023)),
                              ((Txt ''A'', Num (Fin 2)), Fin (2 ^ 1023))],
               mean_of_maxes = PInf,
               abs_max_values = [((Txt ''A'', Num (Fin 1)), Fin (2 ^ 1023)),
                                  ((Txt ''A'', Num (Fin 2)), Fin (2 ^ 1023))],
               mean_of_abs_maxes = PInf\<rparr>
   \<and> Fin (sum_list [2 ^ 1023, 2 ^ 1023] / 2) = Fin (2 ^ 1023)
   \<and> analyze_max_g_values sample_lib rounded_sum ''odd.csv'' =
     Returned \<lparr>max_values = [((Txt ''A'', Num (Fin 1)), Fin 9007199254740992),
                              ((Txt ''A'', Num (Fin 2)), Fin 1)],
               mean_of_maxes = Fin 4503599627370496,
               abs_max_values = [((Txt ''A'', Num (Fin 1)), Fin 9007199254740992),
                                  ((Txt ''A'', Num (Fin 2)), Fin 1)],
               mean_of_abs_maxes = Fin 4503599627370496\<rparr>
   \<and> Fin (sum_list [9007199254740992, 1] / 2) = Fin (9007199254740993 / 2)
   \<and> Fin (9007199254740993 / 2) \<noteq> Fin 4503599627370496"
proof -
  have 1: "analyze_max_g_values sample_lib near_overflow ''big.csv'' =
     Returned \<lparr>max_values = [((Txt ''A'', Num (Fin 1)), Fin (2 ^ 1023)),
                              ((Txt ''A'', Num (Fin 2)), Fin (2 ^ 1023))],
               mean_of_maxes = PInf,
               abs_max_values = [((Txt ''A'', Num (Fin 1)), Fin (2 ^ 1023)),
                                  ((Txt ''A'', Num (Fin 2)), Fin (2 ^ 1023))],
               mean_of_abs_maxes = PInf\<rparr>"
    by (simp add: eval_defs near_overflow_def upt_rec)
  have 2: "analyze_max_g_values sample_lib rounded_sum ''odd.csv'' =
     Returned \<lparr>max_values = [((Txt ''A'', Num (Fin 1)), Fin 9007199254740992),
                              ((Txt ''A'', Num (Fin 2)), Fin 1)],
               mean_of_maxes = Fin 4503599627370496,
               abs_max_values = [((Txt ''A'', Num (Fin 1)), Fin 9007199254740992),
                                  ((Txt ''A'', Num (Fin 2)), Fin 1)],
               mean_of_abs_maxes = Fin 4503599627370496\<rparr>"
    by (simp add: eval_defs rounded_sum_def upt_rec)
  have 3: "Fin (sum_list [2 ^ 1023, 2 ^ 1023] / 2) = Fin (2 ^ 1023)" by simp
  have 4: "Fin (sum_list [9007199254740992, 1] / 2) = Fin (9007199254740993 / 2)
           \<and> Fin (9007199254740993 / 2) \<noteq> Fin 4503599627370496" by simp
  from 1 2 3 4 show ?thesis by blast
qed

text \<open>
  C4 as the code has it: when there is at least one group, both dictionaries have as
  many entries as there are groups, and each returned mean is the float64 mean of the
  entries of its dictionary: their float64 sum, added in the library's order, divided
  by their number. For finite entries it is their sum over their number whenever
  neither the sum nor the division rounds or overflows. The maxima 2, 4 and 6 give the
  mean 4.
\<close>

theorem mean_of_extrema:
  assumes "analyze_max_g_values lib fs path = Returned a"
    and "trial_groups lib fs path = Inr gl"
    and "gl \<noteq> []"
  shows "length (max_values a) = length gl
       \<and> length (abs_max_values a) = length gl
       \<and> mean_of_maxes a
           = fdiv (float_sum (sum_order lib (length gl)) (map snd (max_values a))) (length gl)
       \<and> mean_of_abs_maxes a
           = fdiv (float_sum (sum_order lib (length gl)) (map snd (abs_max_values a))) (length gl)
       \<and> (\<forall>qs. map snd (max_values a) = map Fin qs \<and> exact_mean (sum_order lib (length qs)) qs \<longrightarrow>
            mean_of_maxes a = Fin (sum_list qs / of_nat (length qs)))
       \<and> (\<forall>qs. map snd (abs_max_values a) = map Fin qs \<and> exact_mean (sum_order lib (length qs)) qs \<longrightarrow>
            mean_of_abs_maxes a = Fin (sum_list qs / of_nat (length qs)))"
proof -
  from assms(1) obtain cols dts rs where t: "fs path = Some (Table cols dts rs)"
    and a: "a = table_analysis lib (hd cols) dts rs"
    by (rule returned_table)
  let ?conv = "converted lib (hd cols) dts rs" and ?d = "value_dtype lib (hd cols) dts rs"
  let ?ks = "group_keys ?conv (hd cols) rs"
  from assms(2) obtain cols' dts' rs' where "fs path = Some (Table cols' dts' rs')"
    and "gl = map (\<lambda>k. (k, members (converted lib (hd cols') dts' rs') (hd cols') rs' k))
                (group_keys (converted lib (hd cols') dts' rs') (hd cols') rs')"
    by (rule trial_groups_Inr)
  with t have gl: "gl = map (\<lambda>k. (k, members ?conv (hd cols) rs k)) ?ks"
    by simp
  with assms(3) have ks: "?ks \<noteq> []" by auto
  have l: "length (max_values a) = length gl" "length (abs_max_values a) = length gl"
    by (simp_all add: a gl table_analysis_sel)
  from ks have n: "map snd (max_values a) \<noteq> []" "map snd (abs_max_values a) \<noteq> []"
    by (simp_all add: a table_analysis_sel)
  have m: "mean_of_maxes a = series_mean (sum_order lib) (map snd (max_values a))"
    "mean_of_abs_maxes a = series_mean (sum_order lib) (map snd (abs_max_values a))"
    by (simp_all add: a table_analysis_sel)
  have nn: "\<forall>v\<in>set (map snd (max_values a)). v \<noteq> NaN"
  proof
    fix v assume "v \<in> set (map snd (max_values a))"
    then obtain k where k: "k \<in> set ?ks" and v: "v = series_max (group_values ?conv (hd cols) rs k)"
      by (auto simp: a table_analysis_sel)
    have "group_values ?conv (hd cols) rs k \<noteq> []" using k by (rule group_values_nonempty)
    moreover have "\<forall>x\<in>set (group_values ?conv (hd cols) rs k). x \<noteq> NaN"
      by (auto dest: group_values_not_NaN)
    ultimately have "v \<in> set (group_values ?conv (hd cols) rs k)"
      unfolding v by (rule series_max_greatest(1))
    then show "v \<noteq> NaN" by (rule group_values_not_NaN)
  qed
  have an: "\<forall>w\<in>set (map snd (abs_max_values a)). w \<noteq> NaN"
  proof
    fix w assume "w \<in> set (map snd (abs_max_values a))"
    then obtain k where k: "k \<in> set ?ks"
      and w: "w = series_max (map (abs_value ?d) (group_values ?conv (hd cols) rs k))"
      by (auto simp: a table_analysis_sel)
    have "group_values ?conv (hd cols) rs k \<noteq> []" using k by (rule group_values_nonempty)
    moreover have "\<forall>x\<in>set (group_values ?conv (hd cols) rs k). x \<noteq> NaN"
      by (auto dest: group_values_not_NaN)
    ultimately have "w \<in> abs_value ?d ` set (group_values ?conv (hd cols) rs k)"
      unfolding w by (rule series_max_abs_greatest(1))
    then show "w \<noteq> NaN" by (auto simp: abs_value_NaN dest: group_values_not_NaN)
  qed
  have 1: "mean_of_maxes a
           = fdiv (float_sum (sum_order lib (length gl)) (map snd (max_values a))) (length gl)"
    unfolding m(1) series_mean_present[OF n(1) nn] by (simp add: l)
  have 2: "mean_of_abs_maxes a
           = fdiv (float_sum (sum_order lib (length gl)) (map snd (abs_max_values a))) (length gl)"
    unfolding m(2) series_mean_present[OF n(2) an] by (simp add: l)
  have 3: "mean_of_maxes a = Fin (sum_list qs / of_nat (length qs))"
    if "map snd (max_values a) = map Fin qs" "exact_mean (sum_order lib (length qs)) qs" for qs
  proof -
    from that(1) n(1) have "qs \<noteq> []" by auto
    then show ?thesis unfolding m(1) that(1) using that(2) by (rule series_mean_exact)
  qed
  have 4: "mean_of_abs_maxes a = Fin (sum_list qs / of_nat (length qs))"
    if "map snd (abs_max_values a) = map Fin qs" "exact_mean (sum_order lib (length qs)) qs" for qs
  proof -
    from that(1) n(2) have "qs \<noteq> []" by auto
    then show ?thesis unfolding m(2) that(1) using that(2) by (rule series_mean_exact)
  qed
  from l 1 2 3 4 show ?thesis by blast
qed

theorem mean_of_extrema_witness:
  "analyze_max_g_values sample_lib three_groups ''three.csv'' = Returned three_groups_result
   \<and> trial_groups sample_lib three_groups ''three.csv'' =
       Inr [((Txt ''A'', Num (Fin 1)), [0, 2]), ((Txt ''A'', Num (Fin 2)), [1]),
            ((Txt ''A'', Num (Fin 3)), [3])]
   \<and> map snd (max_values three_groups_result) = map Fin [2, 4, 6]
   \<and> exact_mean (sum_order sample_lib (length [2, 4, 6 :: rat])) [2, 4, 6]
   \<and> mean_of_maxes three_groups_result = Fin (sum_list [2, 4, 6] / of_nat (length [2, 4, 6 :: rat]))
   \<and> mean_of_maxes three_groups_result = Fin 4
   \<and> map snd (abs_max_values three_groups_result) = map Fin [5, 4, 6]
   \<and> exact_mean (sum_order sample_lib (length [5, 4, 6 :: rat])) [5, 4, 6]
   \<and> mean_of_abs_maxes three_groups_result = Fin 5
   \<and> length (max_values three_groups_result) = 3"
proof -
  have r: "analyze_max_g_values sample_lib three_groups ''three.csv'' = Returned three_groups_result"
    by (simp add: eval_defs three_groups_def three_groups_result_def upt_rec)
  have g: "trial_groups sample_lib three_groups ''three.csv'' =
       Inr [((Txt ''A'', Num (Fin 1)), [0, 2]), ((Txt ''A'', Num (Fin 2)), [1]),
            ((Txt ''A'', Num (Fin 3)), [3])]"
    by (simp add: eval_defs three_groups_def upt_rec)
  have n: "[((Txt ''A'', Num (Fin 1)), [0::nat, 2]), ((Txt ''A'', Num (Fin 2)), [1]),
            ((Txt ''A'', Num (Fin 3)), [3])] \<noteq> []" by simp
  have e: "exact_mean (sum_order sample_lib (length [2, 4, 6 :: rat])) [2, 4, 6]"
    "exact_mean (sum_order sample_lib (length [5, 4, 6 :: rat])) [5, 4, 6]"
    by (simp_all add: exact_mean_def sample_lib_def upt_rec round64_eval)
  have s: "map snd (max_values three_groups_result) = map Fin [2, 4, 6]"
    "map snd (abs_max_values three_groups_result) = map Fin [5, 4, 6]"
    by (simp_all add: three_groups_result_def)
  from mean_of_extrema[of sample_lib three_groups "''three.csv''" three_groups_result
        "[((Txt ''A'', Num (Fin 1)), [0, 2]), ((Txt ''A'', Num (Fin 2)), [1]),
            ((Txt ''A'', Num (Fin 3)), [3])]", OF r g n] e s
  have "mean_of_maxes three_groups_result = Fin (sum_list [2, 4, 6] / of_nat (length [2, 4, 6 :: rat]))
        \<and> mean_of_abs_maxes three_groups_result
            = Fin (sum_list [5, 4, 6] / of_nat (length [5, 4, 6 :: rat]))
        \<and> length (max_values three_groups_result) = 3"
    by (metis length_Cons list.size(3) numeral_3_eq_3)
  with r g e s show ?thesis by (simp add: three_groups_result_def)
qed

section \<open>Absolute maxima bound the maxima\<close>

text \<open>
  C10 claims that every absolute maximum is at least 0 and that the mean of the
  absolute maxima is at least 0 and at least the mean of the maxima whenever a group
  exists. For the int64 column that holds only \<open>- 2 ^ 63\<close> the absolute maximum and the
  mean of the absolute maxima are \<open>- 2 ^ 63\<close>. With one group whose only value is minus
  infinity and one whose only value is plus infinity the mean of the maxima is NaN,
  which compares with nothing.
\<close>

theorem abs_bounds_counterexample:
  "analyze_max_g_values sample_lib least_int_alone ''min1.csv'' =
     Returned \<lparr>max_values = [((Txt ''A'', Num (Fin 1)), Fin (- 9223372036854775808))],
               mean_of_maxes = Fin (- 9223372036854775808),
               abs_max_values = [((Txt ''A'', Num (Fin 1)), Fin (- 9223372036854775808))],
               mean_of_abs_maxes = Fin (- 9223372036854775808)\<rparr>
   \<and> \<not> fle (Fin 0) (Fin (- 9223372036854775808))
   \<and> analyze_max_g_values sample_lib opposite_infinities ''opp.csv'' =
     Returned \<lparr>max_values = [((Txt ''A'', Num (Fin 1)), NInf), ((Txt ''A'', Num (Fin 2)), PInf)],
               mean_of_maxes = NaN,
               abs_max_values = [((Txt ''A'', Num (Fin 1)), PInf), ((Txt ''A'', Num (Fin 2)), PInf)],
               mean_of_abs_maxes = PInf\<rparr>
   \<and> \<not> fle NaN PInf"
  by (simp add: eval_defs least_int_alone_def opposite_infinities_def upt_rec fle_def)

text \<open>
  C10 as the code has it: in every group the absolute maximum is at least the maximum,
  and it is at least 0 unless both are \<open>- 2 ^ 63\<close> (an int64 group that holds nothing
  else). When a group exists and every absolute maximum is at least 0, the mean of
  the absolute maxima is at least 0; and it is at least the mean of the maxima unless
  one of the two means is NaN.
\<close>

theorem abs_bounds:
  assumes "analyze_max_g_values lib fs path = Returned a"
  shows "(\<forall>k v w. map_of (max_values a) k = Some v \<longrightarrow> map_of (abs_max_values a) k = Some w \<longrightarrow>
            fle v w \<and> (fle (Fin 0) w \<or> (v = Fin (- (2 ^ 63)) \<and> w = Fin (- (2 ^ 63)))))
       \<and> (max_values a \<noteq> [] \<longrightarrow>
            ((\<forall>w \<in> set (map snd (abs_max_values a)). fle (Fin 0) w) \<longrightarrow>
               fle (Fin 0) (mean_of_abs_maxes a))
            \<and> (mean_of_maxes a \<noteq> NaN \<and> mean_of_abs_maxes a \<noteq> NaN \<longrightarrow>
                 fle (mean_of_maxes a) (mean_of_abs_maxes a)))"
proof -
  from assms obtain cols dts rs where a: "a = table_analysis lib (hd cols) dts rs"
    by (rule returned_table)
  let ?conv = "converted lib (hd cols) dts rs" and ?d = "value_dtype lib (hd cols) dts rs"
  let ?ks = "group_keys ?conv (hd cols) rs"
  let ?sm = "\<lambda>k. series_max (group_values ?conv (hd cols) rs k)"
  let ?am = "\<lambda>k. series_max (map (abs_value ?d) (group_values ?conv (hd cols) rs k))"
  have b: "fle (?sm k) (?am k)
           \<and> (fle (Fin 0) (?am k) \<or> (?sm k = Fin (- (2 ^ 63)) \<and> ?am k = Fin (- (2 ^ 63))))"
    if "k \<in> set ?ks" for k
  proof -
    have n: "group_values ?conv (hd cols) rs k \<noteq> []" using that by (rule group_values_nonempty)
    have nn: "\<forall>x\<in>set (group_values ?conv (hd cols) rs k). x \<noteq> NaN"
      by (auto dest: group_values_not_NaN)
    from extrema_bounds[OF n nn, of ?d] show ?thesis by simp
  qed
  have mx: "max_values a = map (\<lambda>k. (k, ?sm k)) ?ks"
    and amx: "abs_max_values a = map (\<lambda>k. (k, ?am k)) ?ks"
    by (simp_all add: a table_analysis_sel)
  have m: "mean_of_maxes a = series_mean (sum_order lib) (map ?sm ?ks)"
    and am: "mean_of_abs_maxes a = series_mean (sum_order lib) (map ?am ?ks)"
    by (simp_all add: a table_analysis_sel comp_def)
  have 1: "\<forall>k v w. map_of (max_values a) k = Some v \<longrightarrow> map_of (abs_max_values a) k = Some w \<longrightarrow>
            fle v w \<and> (fle (Fin 0) w \<or> (v = Fin (- (2 ^ 63)) \<and> w = Fin (- (2 ^ 63))))"
    unfolding mx amx map_of_graph using b by blast
  have l: "list_all2 fle (map ?sm ?ks) (map ?am ?ks)"
    using b by (simp add: list_all2_map1 list_all2_map2 list_all2_same)
  have s: "map snd (abs_max_values a) = map ?am ?ks" by (simp add: amx comp_def)
  have 2: "((\<forall>w \<in> set (map snd (abs_max_values a)). fle (Fin 0) w) \<longrightarrow>
               fle (Fin 0) (mean_of_abs_maxes a))
            \<and> (mean_of_maxes a \<noteq> NaN \<and> mean_of_abs_maxes a \<noteq> NaN \<longrightarrow>
                 fle (mean_of_maxes a) (mean_of_abs_maxes a))"
    if "max_values a \<noteq> []"
  proof -
    from that have n: "map ?sm ?ks \<noteq> []" by (simp add: mx)
    from series_mean_bounds[OF l n, of "sum_order lib"] show ?thesis unfolding m am s by blast
  qed
  from 1 2 show ?thesis by blast
qed

theorem abs_bounds_witness:
  "analyze_max_g_values sample_lib scenario ''run.csv'' = Returned scenario_result
   \<and> map_of (max_values scenario_result) (Txt ''A'', Num (Fin 1)) = Some (Fin (7 / 2))
   \<and> map_of (abs_max_values scenario_result) (Txt ''A'', Num (Fin 1))
       = Some (Fin (8106479329266893 / 1125899906842624))
   \<and> fle (Fin (7 / 2)) (Fin (8106479329266893 / 1125899906842624))
   \<and> fle (Fin 0) (Fin (8106479329266893 / 1125899906842624))
   \<and> max_values scenario_result \<noteq> []
   \<and> map snd (abs_max_values scenario_result) = [Fin (8106479329266893 / 1125899906842624), Fin 4]
   \<and> fle (Fin 0) (Fin 4)
   \<and> mean_of_maxes scenario_result \<noteq> NaN \<and> mean_of_abs_maxes scenario_result \<noteq> NaN
   \<and> fle (Fin 0) (mean_of_abs_maxes scenario_result)
   \<and> fle (mean_of_maxes scenario_result) (mean_of_abs_maxes scenario_result)"
  using abs_bounds[of sample_lib scenario "''run.csv''" scenario_result, OF scenario_returned]
    scenario_returned
  by (simp add: scenario_result_def fle_def)

end
